theory Spec2Isabelle
  imports Main
begin

section \<open>Common types\<close>

text \<open>
  User ids are strings (\<open>User.id\<close>, \<open>String(32)\<close>); row ids are the integers of the
  primary keys; a \<open>datetime\<close> is the reading of a naive (offset-free) clock, as
  \<open>datetime.utcnow()\<close> returns it and as the \<open>DateTime\<close> columns keep it, here an
  integer count of clock ticks. A \<open>WebSocket\<close> object is known by its identity.
\<close>

type_synonym user_id = string
type_synonym datetime = int
type_synonym websocket = nat

text \<open>The exceptions the modelled code raises or lets through.\<close>

datatype exn =
    HTTPException nat string
  | IntegrityError
  | AttributeError
  | TypeError
  | WebSocketError

text \<open>
  A JSON value as \<open>json.loads\<close> returns it; an object is the dict it built, written as
  its list of items, looked up with \<open>map_of\<close> (\<open>dict.get\<close>).
\<close>

datatype json =
    JNull
  | JBool bool
  | JNum int
  | JStr string
  | JArr "json list"
  | JObj "(string \<times> json) list"

section \<open>The connection manager (routers/websocket.py)\<close>

text \<open>
  \<open>ConnectionManager.active_connections\<close> is a dict from user id to a set of
  websockets. The set is a list without repetition, in the order the loop of
  \<open>send_personal_message\<close> visits it (Python leaves that order open; no statement
  below depends on it). The frames that \<open>send_json\<close> has written are kept in
  \<open>outbox\<close>, oldest first.
\<close>

type_synonym registry = "user_id \<rightharpoonup> websocket list"

record ws_world =
  active_connections :: registry
  outbox :: "(websocket \<times> json) list"

text \<open>
  \<open>connect\<close>: \<open>await websocket.accept()\<close> comes first; \<open>accepted\<close> tells whether it
  returned. Then the user's set is created if absent and the websocket added.
\<close>

definition connect :: "bool \<Rightarrow> registry \<Rightarrow> user_id \<Rightarrow> websocket \<Rightarrow> exn + registry" where
  "connect accepted reg user ws =
     (if \<not> accepted then Inl WebSocketError
      else
        let reg1 = (if reg user = None then reg(user \<mapsto> []) else reg)
        in Inr (reg1(user \<mapsto> List.insert ws (the (reg1 user)))))"

definition disconnect :: "registry \<Rightarrow> user_id \<Rightarrow> websocket \<Rightarrow> registry" where
  "disconnect reg user ws =
     (case reg user of
        None \<Rightarrow> reg
      | Some conns \<Rightarrow>
          let conns' = removeAll ws conns
          in if conns' = [] then reg(user := None) else reg(user \<mapsto> conns'))"

text \<open>
  The first loop of \<open>send_personal_message\<close>: \<open>send_json\<close> on each connection of the
  user; a connection whose transport raises (\<open>broken\<close>) is collected in
  \<open>disconnected\<close>, the others receive the frame.
\<close>

fun send_each :: "(websocket \<Rightarrow> bool) \<Rightarrow> json \<Rightarrow> websocket list
    \<Rightarrow> (websocket \<times> json) list \<Rightarrow> websocket list
    \<Rightarrow> (websocket \<times> json) list \<times> websocket list" where
  "send_each broken message [] out disconnected = (out, disconnected)"
| "send_each broken message (ws # rest) out disconnected =
     (if broken ws then send_each broken message rest out (disconnected @ [ws])
      else send_each broken message rest (out @ [(ws, message)]) disconnected)"

text \<open>The second loop: \<open>self.disconnect(user_id, ws)\<close> for each failed connection.\<close>

fun cleanup :: "registry \<Rightarrow> user_id \<Rightarrow> websocket list \<Rightarrow> registry" where
  "cleanup reg user [] = reg"
| "cleanup reg user (ws # rest) = cleanup (disconnect reg user ws) user rest"

definition send_personal_message ::
    "(websocket \<Rightarrow> bool) \<Rightarrow> json \<Rightarrow> user_id \<Rightarrow> ws_world \<Rightarrow> ws_world" where
  "send_personal_message broken message user w =
     (case active_connections w user of
        None \<Rightarrow> w
      | Some conns \<Rightarrow>
          (case send_each broken message conns (outbox w) [] of
             (out, disconnected) \<Rightarrow>
               w\<lparr>active_connections := cleanup (active_connections w) user disconnected,
                 outbox := out\<rparr>))"

text \<open>The connections registered for a user (none when the key is absent).\<close>

definition connections_of :: "registry \<Rightarrow> user_id \<Rightarrow> websocket list" where
  "connections_of reg user = (case reg user of None \<Rightarrow> [] | Some conns \<Rightarrow> conns)"

subsection \<open>The receive loop of \<open>websocket_endpoint\<close>\<close>

text \<open>
  One turn of \<open>while True\<close> reads a frame. What the turn sees of it is:
  \<open>receive_text\<close> raised \<open>WebSocketDisconnect\<close>; or it returned a text that
  \<open>json.loads\<close> rejects; or \<open>json.loads\<close> returned a value.
\<close>

datatype frame =
    Disconnected
  | Not_json
  | Json json

datatype loop_state = Receiving | Exited

definition pong :: json where
  "pong = JObj [(''type'', JStr ''pong'')]"

text \<open>
  \<open>message.get("type")\<close>: only a dict has \<open>get\<close>; on any other value the attribute
  lookup raises \<open>AttributeError\<close>.
\<close>

definition message_get :: "json \<Rightarrow> string \<Rightarrow> exn + json option" where
  "message_get message key =
     (case message of JObj items \<Rightarrow> Inr (map_of items key) | _ \<Rightarrow> Inl AttributeError)"

text \<open>
  The loop over the frames that arrive, in order. It leaves through one of the two
  handlers, both of which call \<open>manager.disconnect\<close>; when the frames given are used up
  it is still waiting in \<open>receive_text\<close>.
\<close>

fun receive_loop :: "(websocket \<Rightarrow> bool) \<Rightarrow> user_id \<Rightarrow> websocket \<Rightarrow> frame list
    \<Rightarrow> ws_world \<Rightarrow> loop_state \<times> ws_world" where
  "receive_loop broken user ws [] w = (Receiving, w)"
| "receive_loop broken user ws (f # fs) w =
     (case f of
        Disconnected \<Rightarrow>
          (Exited, w\<lparr>active_connections := disconnect (active_connections w) user ws\<rparr>)
      | Not_json \<Rightarrow>
          (Exited, w\<lparr>active_connections := disconnect (active_connections w) user ws\<rparr>)
      | Json message \<Rightarrow>
          (case message_get message ''type'' of
             Inl e \<Rightarrow>
               (Exited, w\<lparr>active_connections := disconnect (active_connections w) user ws\<rparr>)
           | Inr t \<Rightarrow>
               if t = Some (JStr ''ping'') then
                 (if broken ws then
                    (Exited, w\<lparr>active_connections := disconnect (active_connections w) user ws\<rparr>)
                  else receive_loop broken user ws fs (w\<lparr>outbox := outbox w @ [(ws, pong)]\<rparr>))
               else receive_loop broken user ws fs w))"

subsection \<open>Sequences of manager operations\<close>

text \<open>
  The registry is only changed by \<open>connect\<close>, \<open>disconnect\<close> and the cleanup of
  \<open>send_personal_message\<close>. A history of the manager is a list of such calls, run from
  the state \<open>__init__\<close> builds. A \<open>connect\<close> whose \<open>accept\<close> raised changes nothing.
\<close>

datatype manager_op =
    Connect bool user_id websocket
  | Disconnect user_id websocket
  | Send_personal_message "websocket \<Rightarrow> bool" json user_id

definition manager_init :: ws_world where
  "manager_init = \<lparr>active_connections = Map.empty, outbox = []\<rparr>"

fun apply_op :: "ws_world \<Rightarrow> manager_op \<Rightarrow> ws_world" where
  "apply_op w (Connect accepted user ws) =
     (case connect accepted (active_connections w) user ws of
        Inl e \<Rightarrow> w
      | Inr reg \<Rightarrow> w\<lparr>active_connections := reg\<rparr>)"
| "apply_op w (Disconnect user ws) =
     w\<lparr>active_connections := disconnect (active_connections w) user ws\<rparr>"
| "apply_op w (Send_personal_message broken message user) =
     send_personal_message broken message user w"

section \<open>The store (models.py)\<close>

datatype MatchStatus = PENDING | ACCEPTED | CONFIRMED | REJECTED

text \<open>The string the \<open>status\<close> column holds, as the error details print it.\<close>

fun status_value :: "MatchStatus \<Rightarrow> string" where
  "status_value PENDING = ''pending''"
| "status_value ACCEPTED = ''accepted''"
| "status_value CONFIRMED = ''confirmed''"
| "status_value REJECTED = ''rejected''"

record User =
  u_id :: user_id
  email :: string

record AvailabilityOffer =
  o_id :: nat
  o_user_id :: user_id
  o_start_at :: datetime
  o_end_at :: datetime

record AvailabilityRequest =
  r_id :: nat
  r_user_id :: user_id
  r_start_at :: datetime
  r_end_at :: datetime

record Match =
  m_id :: nat
  offer_id :: nat
  request_id :: nat
  status :: MatchStatus
  pending_user_id :: "user_id option"
  updated_at :: datetime

text \<open>
  The subject lines of the match e-mails, which \<open>_send_match_email\<close> also stores as the
  text of the notification: "Regami - Nouvelle demande de garde", "Regami - Votre demande
  a ete acceptee!", "Regami - Garde confirmee!", "Regami - Demande de garde annulee".
\<close>

datatype subject = Nouvelle_demande | Demande_acceptee | Garde_confirmee | Demande_annulee

record Notification =
  n_user_id :: user_id
  n_message :: subject
  n_is_read :: bool

record Message =
  msg_id :: nat
  sender_id :: user_id
  recipient_id :: user_id
  content :: string
  is_read :: bool
  created_at :: datetime

text \<open>
  The committed tables, each in row order. The \<open>created_at\<close> and \<open>updated_at\<close>
  columns that no modelled operation reads or writes are left out. The \<open>user\<close>
  relationship of an offer or a request is read through its non-null \<open>user_id\<close>; the
  e-mail and push collaborators (\<open>send_email\<close>, \<open>fcm\<close>) touch no table and swallow
  their own failures.

  The store is the SQLite file of the default \<open>database_url\<close>. No operation modelled
  here deletes a match or a message, so the keys of these two tables are handed out by the
  counters \<open>next_match_id\<close> and \<open>next_message_id\<close>. Offers and requests are deleted
  (\<open>delete_offer\<close>, \<open>delete_request\<close>); their keys are computed from the table, see
  \<open>next_offer_id\<close> below.
\<close>

record db =
  users :: "User list"
  offers :: "AvailabilityOffer list"
  requests :: "AvailabilityRequest list"
  matches :: "Match list"
  notifications :: "Notification list"
  messages :: "Message list"
  next_match_id :: nat
  next_message_id :: nat

definition get_user :: "db \<Rightarrow> user_id \<Rightarrow> User option" where
  "get_user d uid = find (\<lambda>u. u_id u = uid) (users d)"

definition get_offer :: "db \<Rightarrow> nat \<Rightarrow> AvailabilityOffer option" where
  "get_offer d i = find (\<lambda>off. o_id off = i) (offers d)"

definition get_request :: "db \<Rightarrow> nat \<Rightarrow> AvailabilityRequest option" where
  "get_request d i = find (\<lambda>r. r_id r = i) (requests d)"

definition get_match :: "db \<Rightarrow> nat \<Rightarrow> Match option" where
  "get_match d i = find (\<lambda>m. m_id m = i) (matches d)"

text \<open>Writing a changed \<open>Match\<close> object back: the row with its primary key.\<close>

definition update_match :: "Match \<Rightarrow> db \<Rightarrow> db" where
  "update_match m d = d\<lparr>matches := map (\<lambda>x. if m_id x = m_id m then m else x) (matches d)\<rparr>"

text \<open>
  The key of a new offer or request. The columns are declared
  \<open>Integer, primary_key=True, autoincrement=True\<close>, which gives an
  \<open>INTEGER PRIMARY KEY\<close> without the \<open>AUTOINCREMENT\<close> keyword (\<open>sqlite_autoincrement\<close>
  is not set): SQLite gives the new row one more than the largest key in the table, and 1
  in an empty table. The key of a deleted row is handed out again when no larger key is
  left.
\<close>

fun largest_key :: "nat list \<Rightarrow> nat" where
  "largest_key [] = 0"
| "largest_key (k # ks) = max k (largest_key ks)"

definition next_offer_id :: "db \<Rightarrow> nat" where
  "next_offer_id d = Suc (largest_key (map o_id (offers d)))"

definition next_request_id :: "db \<Rightarrow> nat" where
  "next_request_id d = Suc (largest_key (map r_id (requests d)))"

text \<open>
  The times of a \<open>SlotIn\<close> are what pydantic parsed: a naive \<open>datetime\<close> when the
  input carries no UTC offset, an aware one (wall clock reading and offset) when it does.
  Python orders two naive datetimes by their readings and two aware ones by their
  instants, and raises \<open>TypeError\<close> when it is asked to order a naive and an aware one.
  \<open>or_else\<close> is Python's \<open>or\<close> on two comparisons: the second is evaluated only when
  the first returned \<open>False\<close>. The \<open>DateTime\<close> column of SQLite keeps the wall clock
  reading of what it is given.
\<close>

datatype slot_datetime = Naive datetime | Aware datetime int

fun datetime_lt :: "slot_datetime \<Rightarrow> slot_datetime \<Rightarrow> exn + bool" where
  "datetime_lt (Naive a) (Naive b) = Inr (a < b)"
| "datetime_lt (Aware a utcoffset_a) (Aware b utcoffset_b) = Inr (a - utcoffset_a < b - utcoffset_b)"
| "datetime_lt (Naive a) (Aware b utcoffset_b) = Inl TypeError"
| "datetime_lt (Aware a utcoffset_a) (Naive b) = Inl TypeError"

fun datetime_le :: "slot_datetime \<Rightarrow> slot_datetime \<Rightarrow> exn + bool" where
  "datetime_le (Naive a) (Naive b) = Inr (a \<le> b)"
| "datetime_le (Aware a utcoffset_a) (Aware b utcoffset_b) = Inr (a - utcoffset_a \<le> b - utcoffset_b)"
| "datetime_le (Naive a) (Aware b utcoffset_b) = Inl TypeError"
| "datetime_le (Aware a utcoffset_a) (Naive b) = Inl TypeError"

definition or_else :: "exn + bool \<Rightarrow> exn + bool \<Rightarrow> exn + bool" where
  "or_else a b = (case a of Inl e \<Rightarrow> Inl e | Inr holds \<Rightarrow> if holds then Inr True else b)"

fun column_value :: "slot_datetime \<Rightarrow> datetime" where
  "column_value (Naive a) = a"
| "column_value (Aware a utcoffset_a) = a"

section \<open>The matching engine (routers/availability.py)\<close>

definition send_match_email :: "db \<Rightarrow> user_id \<Rightarrow> subject \<Rightarrow> db" where
  "send_match_email d user subj =
     d\<lparr>notifications := notifications d @
         [\<lparr>n_user_id = user, n_message = subj, n_is_read = False\<rparr>]\<rparr>"

definition non_terminal :: "Match \<Rightarrow> bool" where
  "non_terminal m = (status m = PENDING \<or> status m = ACCEPTED)"

text \<open>
  \<open>_create_match\<close>. Both rows are read again under lock; the pair is looked up among
  the PENDING and ACCEPTED matches; otherwise a row is added and flushed. The flush is
  where the unique constraint \<open>uq_offer_request\<close> on \<open>(offer_id, request_id)\<close> is
  checked, against the rows of every status.
\<close>

definition create_match ::
    "datetime \<Rightarrow> db \<Rightarrow> AvailabilityOffer \<Rightarrow> AvailabilityRequest \<Rightarrow> exn + (Match \<times> db)" where
  "create_match now d offer request =
     (case (get_offer d (o_id offer), get_request d (r_id request)) of
        (Some locked_offer, Some locked_request) \<Rightarrow>
          (case find (\<lambda>m. offer_id m = o_id offer \<and> request_id m = r_id request
                           \<and> non_terminal m) (matches d) of
             Some existing \<Rightarrow> Inr (existing, d)
           | None \<Rightarrow>
               if list_ex (\<lambda>m. offer_id m = o_id offer \<and> request_id m = r_id request) (matches d)
               then Inl IntegrityError
               else
                 let match = \<lparr>m_id = next_match_id d, offer_id = o_id offer,
                              request_id = r_id request, status = PENDING,
                              pending_user_id = Some (o_user_id offer), updated_at = now\<rparr>;
                     d1 = d\<lparr>matches := matches d @ [match],
                            next_match_id := Suc (next_match_id d)\<rparr>
                 in Inr (match, send_match_email d1 (o_user_id locked_offer) Nouvelle_demande))
      | _ \<Rightarrow> Inl (HTTPException 404 ''Offer or request no longer available''))"

text \<open>
  The loop shared by \<open>_match_offer\<close> and \<open>_match_request\<close>: \<open>_create_match\<close> on each
  candidate; \<open>except HTTPException: continue\<close> skips the candidate, any other exception
  leaves the loop and the function.
\<close>

fun match_offer_each :: "datetime \<Rightarrow> db \<Rightarrow> AvailabilityOffer \<Rightarrow> AvailabilityRequest list
    \<Rightarrow> Match list \<Rightarrow> exn + (Match list \<times> db)" where
  "match_offer_each now d offer [] created_matches = Inr (created_matches, d)"
| "match_offer_each now d offer (req # rest) created_matches =
     (case create_match now d offer req of
        Inr (match, d') \<Rightarrow> match_offer_each now d' offer rest (created_matches @ [match])
      | Inl (HTTPException code detail) \<Rightarrow> match_offer_each now d offer rest created_matches
      | Inl e \<Rightarrow> Inl e)"

definition match_offer :: "datetime \<Rightarrow> db \<Rightarrow> AvailabilityOffer \<Rightarrow> exn + (Match list \<times> db)" where
  "match_offer now d offer =
     match_offer_each now d offer
       (filter (\<lambda>r. r_start_at r \<ge> o_start_at offer \<and> r_end_at r \<le> o_end_at offer
                     \<and> r_user_id r \<noteq> o_user_id offer) (requests d)) []"

fun match_request_each :: "datetime \<Rightarrow> db \<Rightarrow> AvailabilityRequest \<Rightarrow> AvailabilityOffer list
    \<Rightarrow> Match list \<Rightarrow> exn + (Match list \<times> db)" where
  "match_request_each now d request [] created_matches = Inr (created_matches, d)"
| "match_request_each now d request (off # rest) created_matches =
     (case create_match now d off request of
        Inr (match, d') \<Rightarrow> match_request_each now d' request rest (created_matches @ [match])
      | Inl (HTTPException code detail) \<Rightarrow> match_request_each now d request rest created_matches
      | Inl e \<Rightarrow> Inl e)"

definition match_request :: "datetime \<Rightarrow> db \<Rightarrow> AvailabilityRequest \<Rightarrow> exn + (Match list \<times> db)" where
  "match_request now d request =
     match_request_each now d request
       (filter (\<lambda>off. o_start_at off \<le> r_start_at request \<and> o_end_at off \<ge> r_end_at request
                       \<and> o_user_id off \<noteq> r_user_id request) (offers d)) []"

text \<open>
  \<open>create_offer\<close> and \<open>create_request\<close>. \<open>now\<close> is the reading of
  \<open>datetime.utcnow()\<close>, a naive datetime. No exception is caught here: a \<open>TypeError\<close> of
  a comparison leaves the endpoint before anything is written. The row is committed before
  the matching runs, so an exception that leaves the matching loses the matches of this
  call and keeps the row: the store returned with such an error is the one after the first
  commit.
\<close>

definition create_offer ::
    "datetime \<Rightarrow> slot_datetime \<Rightarrow> slot_datetime \<Rightarrow> User \<Rightarrow> db \<Rightarrow> (exn + nat) \<times> db" where
  "create_offer now start_at end_at current_user d =
     (case datetime_lt start_at end_at of
        Inl e \<Rightarrow> (Inl e, d)
      | Inr valid \<Rightarrow>
          if \<not> valid then (Inl (HTTPException 400 ''Invalid time range''), d)
          else
            (case or_else (datetime_le end_at (Naive now)) (datetime_le start_at (Naive now)) of
               Inl e \<Rightarrow> (Inl e, d)
             | Inr past \<Rightarrow>
                 if past then (Inl (HTTPException 400 ''Time range must be in the future''), d)
                 else if find (\<lambda>off. o_user_id off = u_id current_user
                                 \<and> o_start_at off < column_value end_at
                                 \<and> o_end_at off > column_value start_at) (offers d) \<noteq> None
                   then (Inl (HTTPException 400 ''Overlapping offer exists''), d)
                 else
                   let offer = \<lparr>o_id = next_offer_id d, o_user_id = u_id current_user,
                                o_start_at = column_value start_at,
                                o_end_at = column_value end_at\<rparr>;
                       d1 = d\<lparr>offers := offers d @ [offer]\<rparr>
                   in case match_offer now d1 offer of
                        Inl e \<Rightarrow> (Inl e, d1)
                      | Inr (created, d2) \<Rightarrow> (Inr (o_id offer), d2)))"

definition create_request ::
    "datetime \<Rightarrow> slot_datetime \<Rightarrow> slot_datetime \<Rightarrow> User \<Rightarrow> db \<Rightarrow> (exn + nat) \<times> db" where
  "create_request now start_at end_at current_user d =
     (case datetime_lt start_at end_at of
        Inl e \<Rightarrow> (Inl e, d)
      | Inr valid \<Rightarrow>
          if \<not> valid then (Inl (HTTPException 400 ''Invalid time range''), d)
          else
            (case or_else (datetime_le end_at (Naive now)) (datetime_le start_at (Naive now)) of
               Inl e \<Rightarrow> (Inl e, d)
             | Inr past \<Rightarrow>
                 if past then (Inl (HTTPException 400 ''Time range must be in the future''), d)
                 else if find (\<lambda>r. r_user_id r = u_id current_user
                                 \<and> r_start_at r < column_value end_at
                                 \<and> r_end_at r > column_value start_at) (requests d) \<noteq> None
                   then (Inl (HTTPException 400 ''Overlapping request exists''), d)
                 else
                   let req = \<lparr>r_id = next_request_id d, r_user_id = u_id current_user,
                              r_start_at = column_value start_at,
                              r_end_at = column_value end_at\<rparr>;
                       d1 = d\<lparr>requests := requests d @ [req]\<rparr>
                   in case match_request now d1 req of
                        Inl e \<Rightarrow> (Inl e, d1)
                      | Inr (created, d2) \<Rightarrow> (Inr (r_id req), d2)))"

text \<open>
  \<open>delete_offer\<close> and \<open>delete_request\<close>. Only the row itself goes: no relationship
  leads from an offer or a request to its matches, and the SQLite connection is opened
  without \<open>PRAGMA foreign_keys\<close>, so the foreign keys of the \<open>matches\<close> table are not
  enforced and a match of the deleted row stays as it is.
\<close>

definition delete_offer :: "nat \<Rightarrow> User \<Rightarrow> db \<Rightarrow> (exn + unit) \<times> db" where
  "delete_offer offer_id' current_user d =
     (case get_offer d offer_id' of
        None \<Rightarrow> (Inl (HTTPException 404 ''Offer not found''), d)
      | Some obj \<Rightarrow>
          if o_user_id obj \<noteq> u_id current_user
            then (Inl (HTTPException 404 ''Offer not found''), d)
          else (Inr (), d\<lparr>offers := filter (\<lambda>off. o_id off \<noteq> o_id obj) (offers d)\<rparr>))"

definition delete_request :: "nat \<Rightarrow> User \<Rightarrow> db \<Rightarrow> (exn + unit) \<times> db" where
  "delete_request request_id' current_user d =
     (case get_request d request_id' of
        None \<Rightarrow> (Inl (HTTPException 404 ''Request not found''), d)
      | Some obj \<Rightarrow>
          if r_user_id obj \<noteq> u_id current_user
            then (Inl (HTTPException 404 ''Request not found''), d)
          else (Inr (), d\<lparr>requests := filter (\<lambda>r. r_id r \<noteq> r_id obj) (requests d)\<rparr>))"

section \<open>The match lifecycle (routers/availability.py)\<close>

text \<open>
  Each endpoint returns its outcome and the store it leaves. An exception is raised
  before \<open>db.commit()\<close>, so the store it leaves is the one it found. \<open>match.offer\<close> and
  \<open>match.request\<close> are \<open>None\<close> when the row is gone; reading an attribute of \<open>None\<close>
  raises \<open>AttributeError\<close>.
\<close>

definition accept_match :: "datetime \<Rightarrow> nat \<Rightarrow> User \<Rightarrow> db \<Rightarrow> (exn + nat \<times> user_id option) \<times> db" where
  "accept_match now match_id current_user d =
     (case get_match d match_id of
        None \<Rightarrow> (Inl (HTTPException 404 ''Match not found''), d)
      | Some match \<Rightarrow>
          if pending_user_id match \<noteq> Some (u_id current_user)
            then (Inl (HTTPException 403 ''Not authorized to respond to this match''), d)
          else if status match \<noteq> PENDING
            then (Inl (HTTPException 400
                   (''Cannot accept match in '' @ status_value (status match) @ '' status'')), d)
          else
            (case get_request d (request_id match) of
               None \<Rightarrow> (Inl AttributeError, d)
             | Some request \<Rightarrow>
                 let match' = match\<lparr>status := ACCEPTED,
                                    pending_user_id := Some (r_user_id request),
                                    updated_at := now\<rparr>;
                     d1 = send_match_email (update_match match' d) (r_user_id request)
                            Demande_acceptee
                 in (case get_offer d (offer_id match) of
                       None \<Rightarrow> (Inl AttributeError, d)
                     | Some offer \<Rightarrow> (Inr (m_id match', pending_user_id match'), d1))))"

definition confirm_match :: "datetime \<Rightarrow> nat \<Rightarrow> User \<Rightarrow> db \<Rightarrow> (exn + nat) \<times> db" where
  "confirm_match now match_id current_user d =
     (case get_match d match_id of
        None \<Rightarrow> (Inl (HTTPException 404 ''Match not found''), d)
      | Some match \<Rightarrow>
          if pending_user_id match \<noteq> Some (u_id current_user)
            then (Inl (HTTPException 403 ''Not authorized to respond to this match''), d)
          else if status match \<noteq> ACCEPTED
            then (Inl (HTTPException 400
                   (''Cannot confirm match in '' @ status_value (status match) @ '' status'')), d)
          else
            let match' = match\<lparr>status := CONFIRMED, pending_user_id := None,
                               updated_at := now\<rparr>
            in (case (get_offer d (offer_id match), get_request d (request_id match)) of
                  (Some offer, Some request) \<Rightarrow>
                    (Inr (m_id match'),
                     send_match_email
                       (send_match_email (update_match match' d) (o_user_id offer) Garde_confirmee)
                       (r_user_id request) Garde_confirmee)
                | _ \<Rightarrow> (Inl AttributeError, d)))"

definition reject_match :: "datetime \<Rightarrow> nat \<Rightarrow> User \<Rightarrow> db \<Rightarrow> (exn + nat) \<times> db" where
  "reject_match now match_id current_user d =
     (case get_match d match_id of
        None \<Rightarrow> (Inl (HTTPException 404 ''Match not found''), d)
      | Some match \<Rightarrow>
          let is_offer_owner =
                (case get_offer d (offer_id match) of
                   Some offer \<Rightarrow> o_user_id offer = u_id current_user | None \<Rightarrow> False);
              is_requester =
                (case get_request d (request_id match) of
                   Some request \<Rightarrow> r_user_id request = u_id current_user | None \<Rightarrow> False)
          in if \<not> (is_offer_owner \<or> is_requester)
               then (Inl (HTTPException 403 ''Not authorized to reject this match''), d)
             else if \<not> (status match = PENDING \<or> status match = ACCEPTED)
               then (Inl (HTTPException 400
                      (''Cannot reject match in '' @ status_value (status match) @ '' status'')), d)
             else
               let match' = match\<lparr>status := REJECTED, pending_user_id := None,
                                  updated_at := now\<rparr>;
                   other_user =
                     (if is_requester then map_option o_user_id (get_offer d (offer_id match))
                      else map_option r_user_id (get_request d (request_id match)))
               in (case other_user of
                     None \<Rightarrow> (Inl AttributeError, d)
                   | Some other \<Rightarrow>
                       (Inr (m_id match'),
                        send_match_email (update_match match' d) other Demande_annulee)))"

section \<open>Messages (routers/messages.py)\<close>

record MessageResponse =
  resp_message :: Message
  sender_email :: "string option"
  recipient_email :: "string option"

record ConversationSummary =
  other_user_id :: user_id
  other_user_email :: string
  last_message :: string
  last_message_at :: datetime
  unread_count :: nat

text \<open>
  The event \<open>notify_new_message\<close> hands to \<open>send_personal_message\<close>. \<open>timestamp\<close> is
  the reading \<open>ts\<close> of the event loop's clock and \<open>created_at\<close> the time of the row (the
  source prints it with \<open>isoformat\<close>).
\<close>

definition new_message_event :: "int \<Rightarrow> Message \<Rightarrow> User \<Rightarrow> json" where
  "new_message_event ts message current_user =
     JObj [(''type'', JStr ''new_message''),
           (''data'', JObj [(''message_id'', JNum (int (msg_id message))),
                            (''sender_id'', JStr (u_id current_user)),
                            (''sender_email'', JStr (email current_user)),
                            (''content'', JStr (take 100 (content message))),
                            (''created_at'', JNum (created_at message))]),
           (''timestamp'', JNum ts)]"

text \<open>
  \<open>send_message\<close>, an endpoint that works on the store and on the connection manager.
  \<open>broken\<close> tells which transports raise in \<open>send_json\<close>.
\<close>

definition send_message ::
    "(websocket \<Rightarrow> bool) \<Rightarrow> datetime \<Rightarrow> int \<Rightarrow> user_id \<Rightarrow> string \<Rightarrow> User
     \<Rightarrow> db \<Rightarrow> ws_world \<Rightarrow> (exn + MessageResponse) \<times> db \<times> ws_world" where
  "send_message broken now ts recipient content' current_user d w =
     (case get_user d recipient of
        None \<Rightarrow> (Inl (HTTPException 404 ''Recipient not found''), d, w)
      | Some recipient_user \<Rightarrow>
          if u_id recipient_user = u_id current_user
            then (Inl (HTTPException 400 ''Cannot send message to yourself''), d, w)
          else
            let message = \<lparr>msg_id = next_message_id d, sender_id = u_id current_user,
                            recipient_id = recipient, content = content', is_read = False,
                            created_at = now\<rparr>;
                d1 = d\<lparr>messages := messages d @ [message],
                       next_message_id := Suc (next_message_id d)\<rparr>;
                response = \<lparr>resp_message = message,
                             sender_email = Some (email current_user),
                             recipient_email = Some (email recipient_user)\<rparr>
            in (Inr response, d1,
                send_personal_message broken (new_message_event ts message current_user)
                  (u_id recipient_user) w))"

text \<open>
  \<open>order_by(Message.created_at.desc())\<close>: newest first; rows of equal time keep their
  row order (the store leaves that open).
\<close>

definition newest_first :: "Message list \<Rightarrow> Message list" where
  "newest_first ms = rev (sort_key created_at (rev ms))"

definition between :: "user_id \<Rightarrow> user_id \<Rightarrow> Message \<Rightarrow> bool" where
  "between me other m =
     ((sender_id m = me \<and> recipient_id m = other) \<or> (sender_id m = other \<and> recipient_id m = me))"

definition unread_from :: "user_id \<Rightarrow> user_id \<Rightarrow> Message \<Rightarrow> bool" where
  "unread_from other me m = (sender_id m = other \<and> recipient_id m = me \<and> \<not> is_read m)"

text \<open>The body of the loop of \<open>list_conversations\<close> for one counterpart.\<close>

definition conversation_with :: "db \<Rightarrow> User \<Rightarrow> user_id \<Rightarrow> ConversationSummary option" where
  "conversation_with d current_user other =
     (case get_user d other of
        None \<Rightarrow> None
      | Some other_user \<Rightarrow>
          (case newest_first (filter (between (u_id current_user) other) (messages d)) of
             [] \<Rightarrow> None
           | last_msg # _ \<Rightarrow>
               Some \<lparr>other_user_id = other,
                     other_user_email = email other_user,
                     last_message = take 100 (content last_msg),
                     last_message_at = created_at last_msg,
                     unread_count =
                       length (filter (unread_from other (u_id current_user)) (messages d))\<rparr>))"

text \<open>
  \<open>list_conversations\<close>. \<open>all_users\<close> is a set, visited here in the order of first
  appearance; \<open>conversations.sort(key=..., reverse=True)\<close> is Python's stable sort.
\<close>

definition list_conversations :: "db \<Rightarrow> User \<Rightarrow> ConversationSummary list" where
  "list_conversations d current_user =
     (let sent_to = remdups (map recipient_id
                      (filter (\<lambda>m. sender_id m = u_id current_user) (messages d)));
          received_from = remdups (map sender_id
                      (filter (\<lambda>m. recipient_id m = u_id current_user) (messages d)));
          all_users = remdups (sent_to @ received_from);
          conversations = List.map_filter (conversation_with d current_user) all_users
      in rev (sort_key last_message_at (rev conversations)))"

text \<open>
  \<open>get_conversation_thread\<close>. How the store evaluates \<open>OFFSET\<close> and \<open>LIMIT\<close> (also
  for the negative values that an unchecked \<open>page\<close> or \<open>page_size\<close> gives) is the
  parameter \<open>paginate\<close>; when it raises, nothing is committed.
\<close>

type_synonym paginate = "int \<Rightarrow> int \<Rightarrow> Message list \<Rightarrow> exn + Message list"

definition mark_thread_read :: "user_id \<Rightarrow> user_id \<Rightarrow> db \<Rightarrow> db" where
  "mark_thread_read other me d =
     d\<lparr>messages := map (\<lambda>m. if unread_from other me m then m\<lparr>is_read := True\<rparr> else m)
                       (messages d)\<rparr>"

definition get_conversation_thread ::
    "paginate \<Rightarrow> user_id \<Rightarrow> User \<Rightarrow> int \<Rightarrow> int \<Rightarrow> db \<Rightarrow> (exn + MessageResponse list) \<times> db" where
  "get_conversation_thread paginate other current_user page page_size d =
     (case get_user d other of
        None \<Rightarrow> (Inl (HTTPException 404 ''User not found''), d)
      | Some other_user \<Rightarrow>
          (case paginate ((page - 1) * page_size) page_size
                  (newest_first (filter (between (u_id current_user) other) (messages d))) of
             Inl e \<Rightarrow> (Inl e, d)
           | Inr msgs \<Rightarrow>
               (Inr (map (\<lambda>msg.
                       \<lparr>resp_message = msg,
                        sender_email = Some (if sender_id msg = u_id current_user
                                             then email current_user else email other_user),
                        recipient_email = Some (if recipient_id msg = other
                                                then email other_user else email current_user)\<rparr>)
                     msgs),
                mark_thread_read other (u_id current_user) d)))"

text \<open>
  SQLite, the store of the default \<open>database_url\<close>: a negative \<open>OFFSET\<close> counts as 0 and
  a negative \<open>LIMIT\<close> as no limit.
\<close>

definition sqlite_paginate :: paginate where
  "sqlite_paginate off lim ms =
     Inr ((if lim < 0 then (\<lambda>xs. xs) else take (nat lim)) (drop (nat off) ms))"

section \<open>Notions for the statements about the matching engine\<close>

text \<open>
  The two loops \<open>_match_offer\<close> and \<open>_match_request\<close> differ only in which side of
  the pair is fixed; \<open>create_each\<close> is the loop over a list of pairs. \<open>rows_present\<close>
  says that both rows of a pair are still in the store, \<open>for_pair\<close> that a match
  references a given pair, and \<open>keys_ok\<close> that no match references a key that the
  table of offers or of requests has yet to hand out. \<open>new_match\<close> is the row
  \<open>_create_match\<close> inserts and \<open>add_match\<close> the store after the insert and the
  notification.
\<close>

fun create_each :: "datetime \<Rightarrow> db \<Rightarrow> (AvailabilityOffer \<times> AvailabilityRequest) list
    \<Rightarrow> Match list \<Rightarrow> exn + (Match list \<times> db)" where
  "create_each now d [] created_matches = Inr (created_matches, d)"
| "create_each now d ((off, req) # rest) created_matches =
     (case create_match now d off req of
        Inr (match, d') \<Rightarrow> create_each now d' rest (created_matches @ [match])
      | Inl (HTTPException code detail) \<Rightarrow> create_each now d rest created_matches
      | Inl e \<Rightarrow> Inl e)"

definition rows_present :: "db \<Rightarrow> AvailabilityOffer \<Rightarrow> AvailabilityRequest \<Rightarrow> bool" where
  "rows_present d off req = (get_offer d (o_id off) \<noteq> None \<and> get_request d (r_id req) \<noteq> None)"

definition for_pair :: "nat \<Rightarrow> nat \<Rightarrow> Match \<Rightarrow> bool" where
  "for_pair a b m = (offer_id m = a \<and> request_id m = b)"

definition keys_ok :: "db \<Rightarrow> bool" where
  "keys_ok d =
     (\<forall>m \<in> set (matches d). offer_id m < next_offer_id d \<and> request_id m < next_request_id d)"

definition new_match :: "datetime \<Rightarrow> db \<Rightarrow> AvailabilityOffer \<Rightarrow> AvailabilityRequest \<Rightarrow> Match" where
  "new_match now d off req =
     \<lparr>m_id = next_match_id d, offer_id = o_id off, request_id = r_id req, status = PENDING,
      pending_user_id = Some (o_user_id off), updated_at = now\<rparr>"

definition add_match :: "Match \<Rightarrow> user_id \<Rightarrow> db \<Rightarrow> db" where
  "add_match m u d =
     send_match_email (d\<lparr>matches := matches d @ [m], next_match_id := Suc (next_match_id d)\<rparr>)
       u Nouvelle_demande"


section \<open>Example stores\<close>

text \<open>
  Three users; an offer of ann over \<open>[10, 40]\<close>, a request of bob over \<open>[20, 30]\<close>, and
  the match between them in a given state.
\<close>

definition ann :: User where
  "ann = \<lparr>u_id = ''ann'', email = ''ann@example.com''\<rparr>"

definition bob :: User where
  "bob = \<lparr>u_id = ''bob'', email = ''bob@example.com''\<rparr>"

definition eve :: User where
  "eve = \<lparr>u_id = ''eve'', email = ''eve@example.com''\<rparr>"

definition matched_store :: "MatchStatus \<Rightarrow> user_id option \<Rightarrow> db" where
  "matched_store st pending =
     \<lparr>users = [ann, bob, eve],
      offers = [\<lparr>o_id = 1, o_user_id = ''ann'', o_start_at = 10, o_end_at = 40\<rparr>],
      requests = [\<lparr>r_id = 1, r_user_id = ''bob'', r_start_at = 20, r_end_at = 30\<rparr>],
      matches = [\<lparr>m_id = 1, offer_id = 1, request_id = 1, status = st,
                  pending_user_id = pending, updated_at = 5\<rparr>],
      notifications = [], messages = [],
      next_match_id = 2, next_message_id = 1\<rparr>"

text \<open>A store with the three users and nothing else.\<close>

definition empty_store :: db where
  "empty_store =
     \<lparr>users = [ann, bob, eve], offers = [], requests = [], matches = [],
      notifications = [], messages = [],
      next_match_id = 1, next_message_id = 1\<rparr>"

text \<open>
  Four messages: two from bob to ann and one from eve to ann, all unread, and one from ann
  to bob.
\<close>

definition chat_store :: db where
  "chat_store = empty_store\<lparr>messages :=
     [\<lparr>msg_id = 1, sender_id = ''bob'', recipient_id = ''ann'', content = ''hi'',
       is_read = False, created_at = 1\<rparr>,
      \<lparr>msg_id = 2, sender_id = ''ann'', recipient_id = ''bob'', content = ''hello'',
       is_read = False, created_at = 2\<rparr>,
      \<lparr>msg_id = 3, sender_id = ''bob'', recipient_id = ''ann'', content = ''again'',
       is_read = False, created_at = 3\<rparr>,
      \<lparr>msg_id = 4, sender_id = ''eve'', recipient_id = ''ann'', content = ''ping'',
       is_read = False, created_at = 4\<rparr>],
     next_message_id := 5\<rparr>"

text \<open>
  The offer and the request of the stores above, a store that holds both and no match
  yet, and a request and an offer that are in no store (rows deleted since they were
  read).
\<close>

definition offer1 :: AvailabilityOffer where
  "offer1 = \<lparr>o_id = 1, o_user_id = ''ann'', o_start_at = 10, o_end_at = 40\<rparr>"

definition request1 :: AvailabilityRequest where
  "request1 = \<lparr>r_id = 1, r_user_id = ''bob'', r_start_at = 20, r_end_at = 30\<rparr>"

definition open_store :: db where
  "open_store = empty_store\<lparr>offers := [offer1], requests := [request1]\<rparr>"

definition stale_request :: AvailabilityRequest where
  "stale_request = \<lparr>r_id = 7, r_user_id = ''eve'', r_start_at = 20, r_end_at = 30\<rparr>"

definition stale_offer :: AvailabilityOffer where
  "stale_offer = \<lparr>o_id = 7, o_user_id = ''eve'', o_start_at = 10, o_end_at = 40\<rparr>"

text \<open>
  Histories of the empty store. In \<open>after_first_pair\<close> ann has offered \<open>[10, 40]\<close> and
  bob has requested \<open>[20, 30]\<close>; match 1 of offer 1 and request 1 awaits ann. In
  \<open>orphan_store\<close> ann has then deleted her offer and bob his request; \<open>stale_match\<close>
  is match 1 as it stays behind. \<open>reissued_offer\<close> is the offer eve creates next, and
  \<open>reissued_store\<close> the store once bob has requested as well.
\<close>

definition after_first_pair :: db where
  "after_first_pair =
     snd (create_request 1 (Naive 20) (Naive 30) bob
       (snd (create_offer 0 (Naive 10) (Naive 40) ann empty_store)))"

definition orphan_store :: db where
  "orphan_store = snd (delete_request 1 bob (snd (delete_offer 1 ann after_first_pair)))"

definition stale_match :: Match where
  "stale_match = \<lparr>m_id = 1, offer_id = 1, request_id = 1, status = PENDING,
                   pending_user_id = Some ''ann'', updated_at = 1\<rparr>"

definition reissued_offer :: AvailabilityOffer where
  "reissued_offer = \<lparr>o_id = 1, o_user_id = ''eve'', o_start_at = 10, o_end_at = 40\<rparr>"

definition reissued_store :: db where
  "reissued_store = orphan_store\<lparr>offers := [reissued_offer], requests := [request1]\<rparr>"

text \<open>
  In \<open>offer_gone_store\<close> bob has rejected match 1, ann has deleted her offer and eve has
  requested \<open>[20, 30]\<close> (\<open>eve_request\<close>). In \<open>request_gone_store\<close> bob has rejected
  match 1 and deleted his request, and eve has offered \<open>[10, 40]\<close> (\<open>eve_offer\<close>).
\<close>

definition offer_gone_store :: db where
  "offer_gone_store =
     snd (create_request 4 (Naive 20) (Naive 30) eve
       (snd (delete_offer 1 ann (snd (reject_match 2 1 bob after_first_pair)))))"

definition request_gone_store :: db where
  "request_gone_store =
     snd (create_offer 4 (Naive 10) (Naive 40) eve
       (snd (delete_request 1 bob (snd (reject_match 2 1 bob after_first_pair)))))"

definition eve_request :: AvailabilityRequest where
  "eve_request = \<lparr>r_id = 2, r_user_id = ''eve'', r_start_at = 20, r_end_at = 30\<rparr>"

definition eve_offer :: AvailabilityOffer where
  "eve_offer = \<lparr>o_id = 2, o_user_id = ''eve'', o_start_at = 10, o_end_at = 40\<rparr>"

section \<open>Properties of the connection manager\<close>

lemma send_each_eq:
  "send_each broken message conns out disconnected =
     (out @ map (\<lambda>ws. (ws, message)) (filter (\<lambda>ws. \<not> broken ws) conns),
      disconnected @ filter broken conns)"
  by (induction conns arbitrary: out disconnected) simp_all

lemma connections_of_disconnect:
  "connections_of (disconnect reg user ws) user = removeAll ws (connections_of reg user)"
  by (simp add: disconnect_def connections_of_def Let_def split: option.splits)

lemma disconnect_other: "v \<noteq> user \<Longrightarrow> disconnect reg user ws v = reg v"
  by (simp add: disconnect_def Let_def split: option.splits)

lemma cleanup_other: "v \<noteq> user \<Longrightarrow> cleanup reg user dis v = reg v"
  by (induction dis arbitrary: reg) (simp_all add: disconnect_other)

lemma connections_of_cleanup:
  "connections_of (cleanup reg user dis) user =
     filter (\<lambda>ws. ws \<notin> set dis) (connections_of reg user)"
proof (induction dis arbitrary: reg)
  case Nil
  then show ?case by simp
next
  case (Cons d dis)
  have "filter (\<lambda>ws. ws \<notin> set dis) (removeAll d xs) = filter (\<lambda>ws. ws \<notin> set (d # dis)) xs" for xs
    by (induction xs) auto
  with Cons show ?case by (simp add: connections_of_disconnect)
qed

lemma disconnect_nonempty: "[] \<notin> ran reg \<Longrightarrow> [] \<notin> ran (disconnect reg user ws)"
  by (auto simp: disconnect_def Let_def ran_def split: option.splits if_splits)

lemma cleanup_nonempty: "[] \<notin> ran reg \<Longrightarrow> [] \<notin> ran (cleanup reg user dis)"
  by (induction dis arbitrary: reg) (simp_all add: disconnect_nonempty)

lemma connect_nonempty:
  "[] \<notin> ran reg \<Longrightarrow> connect accepted reg user ws = Inr reg' \<Longrightarrow> [] \<notin> ran reg'"
  by (auto simp: connect_def Let_def ran_def List.insert_def split: option.splits if_splits)

lemma send_personal_message_outbox:
  "outbox (send_personal_message broken message user w) =
     outbox w @ map (\<lambda>ws. (ws, message))
       (filter (\<lambda>ws. \<not> broken ws) (connections_of (active_connections w) user))"
  by (simp add: send_personal_message_def send_each_eq connections_of_def split: option.splits)

lemma send_personal_message_connections:
  "connections_of (active_connections (send_personal_message broken message user w)) user =
     filter (\<lambda>ws. \<not> broken ws) (connections_of (active_connections w) user)"
proof (cases "active_connections w user")
  case None
  then show ?thesis by (simp add: send_personal_message_def connections_of_def)
next
  case (Some conns)
  have c: "connections_of (active_connections w) user = conns"
    using Some by (simp add: connections_of_def)
  have f: "filter (\<lambda>ws. ws \<notin> set (filter broken conns)) conns = filter (\<lambda>ws. \<not> broken ws) conns"
    by (rule filter_cong) auto
  show ?thesis
    using Some c f
    by (simp add: send_personal_message_def send_each_eq connections_of_cleanup)
qed

lemma send_personal_message_other:
  "v \<noteq> user \<Longrightarrow>
   active_connections (send_personal_message broken message user w) v = active_connections w v"
  by (simp add: send_personal_message_def send_each_eq cleanup_other split: option.splits)

text \<open>
  Claim C9. \<open>send_personal_message\<close> writes the event once to every connection
  registered for the user at call time whose transport does not fail; the connections
  whose transport failed, and only those, are gone from the user's set afterwards; the
  entries of all other users are as before.
\<close>

theorem send_personal_message_fanout:
  "outbox (send_personal_message broken message user w) =
     outbox w @ map (\<lambda>ws. (ws, message))
       (filter (\<lambda>ws. \<not> broken ws) (connections_of (active_connections w) user))
   \<and> connections_of (active_connections (send_personal_message broken message user w)) user =
       filter (\<lambda>ws. \<not> broken ws) (connections_of (active_connections w) user)
   \<and> (\<forall>v. v \<noteq> user \<longrightarrow>
         active_connections (send_personal_message broken message user w) v =
           active_connections w v)"
proof (intro conjI allI impI)
  show "outbox (send_personal_message broken message user w) =
     outbox w @ map (\<lambda>ws. (ws, message))
       (filter (\<lambda>ws. \<not> broken ws) (connections_of (active_connections w) user))"
    by (rule send_personal_message_outbox)
  show "connections_of (active_connections (send_personal_message broken message user w)) user =
       filter (\<lambda>ws. \<not> broken ws) (connections_of (active_connections w) user)"
    by (rule send_personal_message_connections)
  fix v
  assume "v \<noteq> user"
  then show "active_connections (send_personal_message broken message user w) v =
           active_connections w v"
    by (rule send_personal_message_other)
qed

lemma send_personal_message_nonempty:
  "[] \<notin> ran (active_connections w) \<Longrightarrow>
   [] \<notin> ran (active_connections (send_personal_message broken message user w))"
  by (simp add: send_personal_message_def cleanup_nonempty split: option.splits prod.splits)

lemma apply_op_nonempty:
  "[] \<notin> ran (active_connections w) \<Longrightarrow> [] \<notin> ran (active_connections (apply_op w x))"
  by (cases x) (auto simp: disconnect_nonempty send_personal_message_nonempty
      split: sum.splits dest: connect_nonempty)

lemma foldl_apply_op_nonempty:
  "[] \<notin> ran (active_connections w) \<Longrightarrow>
   [] \<notin> ran (active_connections (foldl apply_op w ops))"
  by (induction ops arbitrary: w) (simp_all add: apply_op_nonempty)

text \<open>
  Claim C10. \<open>connect\<close> puts the connection into the user's set, creating the entry if
  there was none; \<open>disconnect\<close> deletes the key when the set becomes empty; and after
  any history of \<open>connect\<close>, \<open>disconnect\<close> and \<open>send_personal_message\<close> calls no key
  of the registry maps to an empty set.
\<close>

theorem registry_no_empty_set:
  "connect True reg user ws = Inr (reg(user \<mapsto> List.insert ws (connections_of reg user)))
   \<and> (removeAll ws (connections_of reg user) = [] \<longrightarrow> disconnect reg user ws user = None)
   \<and> [] \<notin> ran (active_connections (foldl apply_op manager_init ops))"
proof -
  have a: "connect True reg user ws = Inr (reg(user \<mapsto> List.insert ws (connections_of reg user)))"
    by (simp add: connect_def connections_of_def Let_def split: option.splits)
  have b: "removeAll ws (connections_of reg user) = [] \<longrightarrow> disconnect reg user ws user = None"
    by (simp add: disconnect_def connections_of_def Let_def split: option.splits)
  have c: "[] \<notin> ran (active_connections (foldl apply_op manager_init ops))"
    by (rule foldl_apply_op_nonempty) (simp add: manager_init_def)
  from a b c show ?thesis by blast
qed

theorem registry_no_empty_set_witness:
  "connect True Map.empty ''ann'' 1 = Inr [''ann'' \<mapsto> [1]]
   \<and> disconnect [''ann'' \<mapsto> [1]] ''ann'' 1 ''ann'' = None
   \<and> active_connections (foldl apply_op manager_init
        [Connect True ''ann'' 1, Connect True ''ann'' 2,
         Send_personal_message (\<lambda>ws. ws = 1) JNull ''ann'', Disconnect ''ann'' 2]) ''ann'' = None
   \<and> [] \<notin> ran (active_connections (foldl apply_op manager_init
        [Connect True ''ann'' 1, Connect True ''ann'' 2,
         Send_personal_message (\<lambda>ws. ws = 1) JNull ''ann'', Disconnect ''ann'' 2]))"
  using registry_no_empty_set [of Map.empty "''ann''" 1
      "[Connect True ''ann'' 1, Connect True ''ann'' 2,
         Send_personal_message (\<lambda>ws. ws = 1) JNull ''ann'', Disconnect ''ann'' 2]"]
    registry_no_empty_set [of "[''ann'' \<mapsto> [1]]" "''ann''" 1 "[]"]
  by (simp add: connections_of_def manager_init_def connect_def disconnect_def
      send_personal_message_def Let_def)

theorem send_personal_message_fanout_witness:
  "outbox (send_personal_message (\<lambda>ws. ws = 2) (JStr ''hi'') ''ann''
       \<lparr>active_connections = [''ann'' \<mapsto> [1, 2, 3], ''bob'' \<mapsto> [4]], outbox = []\<rparr>) =
     [(1, JStr ''hi''), (3, JStr ''hi'')]
   \<and> active_connections (send_personal_message (\<lambda>ws. ws = 2) (JStr ''hi'') ''ann''
       \<lparr>active_connections = [''ann'' \<mapsto> [1, 2, 3], ''bob'' \<mapsto> [4]], outbox = []\<rparr>) ''ann'' =
     Some [1, 3]
   \<and> active_connections (send_personal_message (\<lambda>ws. ws = 2) (JStr ''hi'') ''ann''
       \<lparr>active_connections = [''ann'' \<mapsto> [1, 2, 3], ''bob'' \<mapsto> [4]], outbox = []\<rparr>) ''bob'' =
     Some [4]"
  using send_personal_message_fanout [of "\<lambda>ws. ws = 2" "JStr ''hi''" "''ann''"
      "\<lparr>active_connections = [''ann'' \<mapsto> [1, 2, 3], ''bob'' \<mapsto> [4]], outbox = []\<rparr>"]
  by (simp add: connections_of_def send_personal_message_def disconnect_def Let_def)

subsection \<open>The receive loop\<close>

text \<open>
  Claim C6 says that every frame other than a ping, also one that is not a JSON object,
  is ignored and leaves the connection registered. A frame holding the JSON array
  \<open>["ping"]\<close> has no \<open>get\<close>, a frame that is not JSON makes \<open>json.loads\<close> raise: the
  handler \<open>except Exception\<close> ends the loop and unregisters the connection.
\<close>

theorem receive_loop_frames_counterexample:
  "receive_loop (\<lambda>ws. False) ''ann'' 1 [Json (JArr [JStr ''ping''])]
      \<lparr>active_connections = [''ann'' \<mapsto> [1]], outbox = []\<rparr>
     = (Exited, \<lparr>active_connections = Map.empty, outbox = []\<rparr>)
   \<and> receive_loop (\<lambda>ws. False) ''ann'' 1 [Not_json]
      \<lparr>active_connections = [''ann'' \<mapsto> [1]], outbox = []\<rparr>
     = (Exited, \<lparr>active_connections = Map.empty, outbox = []\<rparr>)"
  by (simp add: message_get_def disconnect_def)

text \<open>
  Claim C6, as the code has it. A JSON object whose \<open>type\<close> is \<open>ping\<close> is answered by
  a \<open>pong\<close> frame on the same connection (when the transport takes it) and the loop goes
  on; any other JSON object is a no-op and the loop goes on; with no frame left the loop
  is still receiving; a frame that is not JSON or not a JSON object, and a disconnect, end
  the loop with \<open>disconnect\<close>, which removes that connection only: the user's other
  connections and the other users' entries stay.
\<close>

theorem receive_loop_frames:
  "(map_of items ''type'' = Some (JStr ''ping'') \<and> \<not> broken ws \<longrightarrow>
      receive_loop broken user ws (Json (JObj items) # fs) w =
        receive_loop broken user ws fs (w\<lparr>outbox := outbox w @ [(ws, pong)]\<rparr>))
   \<and> (map_of items ''type'' \<noteq> Some (JStr ''ping'') \<longrightarrow>
      receive_loop broken user ws (Json (JObj items) # fs) w = receive_loop broken user ws fs w)
   \<and> receive_loop broken user ws [] w = (Receiving, w)
   \<and> ((f = Not_json \<or> f = Disconnected \<or> (\<exists>j. f = Json j \<and> (\<forall>items. j \<noteq> JObj items))) \<longrightarrow>
      receive_loop broken user ws (f # fs) w =
        (Exited, w\<lparr>active_connections := disconnect (active_connections w) user ws\<rparr>))
   \<and> connections_of (disconnect (active_connections w) user ws) user =
        removeAll ws (connections_of (active_connections w) user)
   \<and> (\<forall>v. v \<noteq> user \<longrightarrow> disconnect (active_connections w) user ws v = active_connections w v)"
proof -
  have nonobj: "receive_loop broken user ws (Json j # fs) w =
        (Exited, w\<lparr>active_connections := disconnect (active_connections w) user ws\<rparr>)"
    if "\<forall>items. j \<noteq> JObj items" for j
    using that by (cases j) (simp_all add: message_get_def)
  have a: "map_of items ''type'' = Some (JStr ''ping'') \<and> \<not> broken ws \<longrightarrow>
      receive_loop broken user ws (Json (JObj items) # fs) w =
        receive_loop broken user ws fs (w\<lparr>outbox := outbox w @ [(ws, pong)]\<rparr>)"
    by (simp add: message_get_def)
  have b: "map_of items ''type'' \<noteq> Some (JStr ''ping'') \<longrightarrow>
      receive_loop broken user ws (Json (JObj items) # fs) w = receive_loop broken user ws fs w"
    by (simp add: message_get_def)
  have c: "(f = Not_json \<or> f = Disconnected \<or> (\<exists>j. f = Json j \<and> (\<forall>items. j \<noteq> JObj items))) \<longrightarrow>
      receive_loop broken user ws (f # fs) w =
        (Exited, w\<lparr>active_connections := disconnect (active_connections w) user ws\<rparr>)"
  proof (intro impI, elim disjE exE conjE)
    assume "f = Not_json"
    then show "receive_loop broken user ws (f # fs) w =
        (Exited, w\<lparr>active_connections := disconnect (active_connections w) user ws\<rparr>)"
      by simp
  next
    assume "f = Disconnected"
    then show "receive_loop broken user ws (f # fs) w =
        (Exited, w\<lparr>active_connections := disconnect (active_connections w) user ws\<rparr>)"
      by simp
  next
    fix j
    assume "f = Json j" "\<forall>items. j \<noteq> JObj items"
    then show "receive_loop broken user ws (f # fs) w =
        (Exited, w\<lparr>active_connections := disconnect (active_connections w) user ws\<rparr>)"
      using nonobj [of j] by (simp del: receive_loop.simps)
  qed
  show ?thesis
    using a b c by (simp add: connections_of_disconnect disconnect_other)
qed

theorem receive_loop_frames_witness:
  "receive_loop (\<lambda>ws. False) ''ann'' 1
      [Json (JObj [(''type'', JStr ''custom'')]), Json (JObj [(''type'', JStr ''ping'')])]
      \<lparr>active_connections = [''ann'' \<mapsto> [1, 2]], outbox = []\<rparr>
     = (Receiving, \<lparr>active_connections = [''ann'' \<mapsto> [1, 2]], outbox = [(1, pong)]\<rparr>)
   \<and> receive_loop (\<lambda>ws. False) ''ann'' 1 [Json (JNum 5), Json (JObj [(''type'', JStr ''ping'')])]
      \<lparr>active_connections = [''ann'' \<mapsto> [1, 2], ''bob'' \<mapsto> [3]], outbox = []\<rparr>
     = (Exited, \<lparr>active_connections = [''ann'' \<mapsto> [2], ''bob'' \<mapsto> [3]], outbox = []\<rparr>)
   \<and> disconnect [''ann'' \<mapsto> [1, 2], ''bob'' \<mapsto> [3]] ''ann'' 1 ''bob'' = Some [3]"
proof -
  let ?w = "\<lparr>active_connections = [''ann'' \<mapsto> [1, 2]], outbox = []\<rparr>"
  let ?w2 = "\<lparr>active_connections = [''ann'' \<mapsto> [1, 2], ''bob'' \<mapsto> [3]], outbox = []\<rparr>"
  note a = receive_loop_frames [of "[(''type'', JStr ''custom'')]" "\<lambda>ws. False" 1 "''ann''"
      "[Json (JObj [(''type'', JStr ''ping'')])]" ?w Not_json]
  note b = receive_loop_frames [of "[(''type'', JStr ''ping'')]" "\<lambda>ws. False" 1 "''ann''"
      "[]" ?w Not_json]
  note c = receive_loop_frames [of "[]" "\<lambda>ws. False" 1 "''ann''"
      "[Json (JObj [(''type'', JStr ''ping'')])]" ?w2 "Json (JNum 5)"]
  have m: "[''ann'' \<mapsto> [1::nat, 2], ''bob'' \<mapsto> [3]](''ann'' \<mapsto> [2]) = [''ann'' \<mapsto> [2], ''bob'' \<mapsto> [3]]"
    by (rule ext) simp
  show ?thesis
    using a b c m by (simp add: disconnect_def)
qed

section \<open>Properties of the match lifecycle\<close>

lemma find_key_Some: "find (\<lambda>x. k x = i) xs = Some y \<Longrightarrow> k y = i"
  by (induction xs) (auto split: if_splits)

lemma find_map_update:
  "find (\<lambda>x. k x = i) xs = Some y \<Longrightarrow> k z = i \<Longrightarrow>
   find (\<lambda>x. k x = i) (map (\<lambda>x. if k x = i then z else x) xs) = Some z"
  by (induction xs) (auto split: if_splits)

lemma get_match_id: "get_match d i = Some m \<Longrightarrow> m_id m = i"
  unfolding get_match_def by (rule find_key_Some)

lemma get_match_update:
  assumes "get_match d i = Some m" and "m_id m' = i"
  shows "get_match (update_match m' d) i = Some m'"
  using assms find_map_update [of m_id i "matches d" m m']
  by (simp add: get_match_def update_match_def)

lemma get_match_send_match_email [simp]:
  "get_match (send_match_email d u s) i = get_match d i"
  by (simp add: get_match_def send_match_email_def)

lemma get_request_send_match_email [simp]:
  "get_request (send_match_email d u s) i = get_request d i"
  by (simp add: get_request_def send_match_email_def)

lemma get_request_update_match [simp]:
  "get_request (update_match m d) i = get_request d i"
  by (simp add: get_request_def update_match_def)

lemma accept_match_Inr:
  assumes "accept_match now i cu d = (Inr r, d')"
    shows "\<exists>m req off. (get_match d i = Some m)
    \<and> (pending_user_id m = Some (u_id cu))
    \<and> (status m = PENDING)
    \<and> (get_request d (request_id m) = Some req)
    \<and> (get_offer d (offer_id m) = Some off)
    \<and> (d' = send_match_email (update_match (m\<lparr>status := ACCEPTED,
            pending_user_id := Some (r_user_id req), updated_at := now\<rparr>) d)
            (r_user_id req) Demande_acceptee)"
  using assms
  by (auto simp: accept_match_def Let_def split: option.splits if_splits)

lemma confirm_match_Inr:
  assumes "confirm_match now i cu d = (Inr r, d')"
    shows "\<exists>m req off. (get_match d i = Some m)
    \<and> (pending_user_id m = Some (u_id cu))
    \<and> (status m = ACCEPTED)
    \<and> (get_request d (request_id m) = Some req)
    \<and> (get_offer d (offer_id m) = Some off)
    \<and> (d' = send_match_email (send_match_email (update_match (m\<lparr>status := CONFIRMED,
            pending_user_id := None, updated_at := now\<rparr>) d) (o_user_id off) Garde_confirmee)
            (r_user_id req) Garde_confirmee)"
  using assms
  by (auto simp: confirm_match_def Let_def split: option.splits if_splits)

lemma reject_match_Inr:
  assumes "reject_match now i cu d = (Inr r, d')"
    shows "\<exists>m other. (get_match d i = Some m)
    \<and> ((\<exists>off. get_offer d (offer_id m) = Some off \<and> o_user_id off = u_id cu)
     \<or> (\<exists>req. get_request d (request_id m) = Some req \<and> r_user_id req = u_id cu))
    \<and> (status m = PENDING \<or> status m = ACCEPTED)
    \<and> (d' = send_match_email (update_match (m\<lparr>status := REJECTED,
            pending_user_id := None, updated_at := now\<rparr>) d) other Demande_annulee)"
  using assms
  by (auto simp: reject_match_def Let_def split: option.splits if_splits)

text \<open>
  Claim C3. When \<open>accept\<close> succeeds the match is ACCEPTED and its \<open>pending_user_id\<close> is
  the owner of the request it references; when \<open>confirm\<close> succeeds the match is CONFIRMED
  and \<open>pending_user_id\<close> is null; when \<open>reject\<close> succeeds the match is REJECTED and
  \<open>pending_user_id\<close> is null.
\<close>

theorem transitions_set_pending_user:
  "(accept_match now i cu d = (Inr r, d') \<longrightarrow>
      (\<exists>m req. get_match d' i = Some m \<and> status m = ACCEPTED
         \<and> get_request d' (request_id m) = Some req
         \<and> pending_user_id m = Some (r_user_id req)))
   \<and> (confirm_match now i cu d = (Inr c, d') \<longrightarrow>
      (\<exists>m. get_match d' i = Some m \<and> status m = CONFIRMED \<and> pending_user_id m = None))
   \<and> (reject_match now i cu d = (Inr c, d') \<longrightarrow>
      (\<exists>m. get_match d' i = Some m \<and> status m = REJECTED \<and> pending_user_id m = None))"
proof (intro conjI impI)
  assume "accept_match now i cu d = (Inr r, d')"
  from accept_match_Inr [OF this] obtain m req off where m: "get_match d i = Some m"
    and req: "get_request d (request_id m) = Some req"
    and "get_offer d (offer_id m) = Some off"
    and d': "d' = send_match_email (update_match (m\<lparr>status := ACCEPTED,
            pending_user_id := Some (r_user_id req), updated_at := now\<rparr>) d)
            (r_user_id req) Demande_acceptee"
    by blast
  let ?m = "m\<lparr>status := ACCEPTED, pending_user_id := Some (r_user_id req), updated_at := now\<rparr>"
  have "get_match d' i = Some ?m"
    using get_match_update [OF m, of ?m] get_match_id [OF m] d' by simp
  moreover have "get_request d' (request_id ?m) = Some req"
    using req d' by simp
  ultimately show "\<exists>m req. get_match d' i = Some m \<and> status m = ACCEPTED
         \<and> get_request d' (request_id m) = Some req
         \<and> pending_user_id m = Some (r_user_id req)"
    by auto
next
  assume "confirm_match now i cu d = (Inr c, d')"
  from confirm_match_Inr [OF this] obtain m req off where m: "get_match d i = Some m"
    and "get_request d (request_id m) = Some req" and "get_offer d (offer_id m) = Some off"
    and d': "d' = send_match_email (send_match_email (update_match (m\<lparr>status := CONFIRMED,
            pending_user_id := None, updated_at := now\<rparr>) d) (o_user_id off) Garde_confirmee)
            (r_user_id req) Garde_confirmee"
    by blast
  let ?m = "m\<lparr>status := CONFIRMED, pending_user_id := None, updated_at := now\<rparr>"
  have "get_match d' i = Some ?m"
    using get_match_update [OF m, of ?m] get_match_id [OF m] d' by simp
  then show "\<exists>m. get_match d' i = Some m \<and> status m = CONFIRMED \<and> pending_user_id m = None"
    by auto
next
  assume "reject_match now i cu d = (Inr c, d')"
  from reject_match_Inr [OF this] obtain m other where m: "get_match d i = Some m"
    and d': "d' = send_match_email (update_match (m\<lparr>status := REJECTED,
            pending_user_id := None, updated_at := now\<rparr>) d) other Demande_annulee"
    by blast
  let ?m = "m\<lparr>status := REJECTED, pending_user_id := None, updated_at := now\<rparr>"
  have "get_match d' i = Some ?m"
    using get_match_update [OF m, of ?m] get_match_id [OF m] d' by simp
  then show "\<exists>m. get_match d' i = Some m \<and> status m = REJECTED \<and> pending_user_id m = None"
    by auto
qed

text \<open>
  Claim C4. On an existing match, \<open>accept\<close> and \<open>confirm\<close> called by anyone but the
  current \<open>pending_user_id\<close> raise 403 (authorization denied, not the 400 of a wrong
  state) and leave the store as it was, so they succeed only for that user; \<open>reject\<close>
  called by a user who is neither the owner of the offer nor the requester raises 403,
  so it succeeds only for one of the two.
\<close>

theorem transitions_authorization:
  assumes "get_match d i = Some m"
  shows "(pending_user_id m \<noteq> Some (u_id cu) \<longrightarrow>
            accept_match now i cu d =
              (Inl (HTTPException 403 ''Not authorized to respond to this match''), d)
          \<and> confirm_match now i cu d =
              (Inl (HTTPException 403 ''Not authorized to respond to this match''), d))
       \<and> (accept_match now i cu d = (Inr r, d') \<longrightarrow> pending_user_id m = Some (u_id cu))
       \<and> (confirm_match now i cu d = (Inr c, d') \<longrightarrow> pending_user_id m = Some (u_id cu))
       \<and> (map_option o_user_id (get_offer d (offer_id m)) \<noteq> Some (u_id cu)
          \<and> map_option r_user_id (get_request d (request_id m)) \<noteq> Some (u_id cu) \<longrightarrow>
            reject_match now i cu d =
              (Inl (HTTPException 403 ''Not authorized to reject this match''), d))
       \<and> (reject_match now i cu d = (Inr c, d') \<longrightarrow>
            map_option o_user_id (get_offer d (offer_id m)) = Some (u_id cu)
            \<or> map_option r_user_id (get_request d (request_id m)) = Some (u_id cu))"
proof (intro conjI impI)
  assume "pending_user_id m \<noteq> Some (u_id cu)"
  then show "accept_match now i cu d =
      (Inl (HTTPException 403 ''Not authorized to respond to this match''), d)"
    and "confirm_match now i cu d =
      (Inl (HTTPException 403 ''Not authorized to respond to this match''), d)"
    using assms by (simp_all add: accept_match_def confirm_match_def)
next
  assume "accept_match now i cu d = (Inr r, d')"
  then show "pending_user_id m = Some (u_id cu)"
    using assms accept_match_Inr [of now i cu d _ d'] by auto
next
  assume "confirm_match now i cu d = (Inr c, d')"
  then show "pending_user_id m = Some (u_id cu)"
    using assms confirm_match_Inr [of now i cu d _ d'] by auto
next
  assume "map_option o_user_id (get_offer d (offer_id m)) \<noteq> Some (u_id cu)
          \<and> map_option r_user_id (get_request d (request_id m)) \<noteq> Some (u_id cu)"
  then show "reject_match now i cu d =
      (Inl (HTTPException 403 ''Not authorized to reject this match''), d)"
    using assms by (auto simp: reject_match_def Let_def split: option.splits)
next
  assume "reject_match now i cu d = (Inr c, d')"
  then show "map_option o_user_id (get_offer d (offer_id m)) = Some (u_id cu)
            \<or> map_option r_user_id (get_request d (request_id m)) = Some (u_id cu)"
    using assms reject_match_Inr [of now i cu d _ d'] by auto
qed

text \<open>
  Claim C2, as the code has it. The caller is checked before the state: \<open>accept\<close> on a
  match that is not PENDING, and \<open>confirm\<close> on a match that is not ACCEPTED, raise 400
  (invalid transition, naming the current status) when the caller is the current
  \<open>pending_user_id\<close> and 403 (authorization denied) otherwise; in both cases the store,
  and with it the status and \<open>pending_user_id\<close> of the match, is unchanged. No \<open>accept\<close>,
  \<open>confirm\<close> or \<open>reject\<close> succeeds on a CONFIRMED or REJECTED match.
\<close>

theorem transitions_wrong_state:
  assumes "get_match d i = Some m"
  shows "(status m \<noteq> PENDING \<longrightarrow>
            accept_match now i cu d =
              (if pending_user_id m = Some (u_id cu)
               then (Inl (HTTPException 400
                      (''Cannot accept match in '' @ status_value (status m) @ '' status'')), d)
               else (Inl (HTTPException 403 ''Not authorized to respond to this match''), d)))
       \<and> (status m \<noteq> ACCEPTED \<longrightarrow>
            confirm_match now i cu d =
              (if pending_user_id m = Some (u_id cu)
               then (Inl (HTTPException 400
                      (''Cannot confirm match in '' @ status_value (status m) @ '' status'')), d)
               else (Inl (HTTPException 403 ''Not authorized to respond to this match''), d)))
       \<and> (status m = CONFIRMED \<or> status m = REJECTED \<longrightarrow>
            (\<exists>e. accept_match now i cu d = (Inl e, d))
            \<and> (\<exists>e. confirm_match now i cu d = (Inl e, d))
            \<and> (\<exists>e. reject_match now i cu d = (Inl e, d)))"
proof (intro conjI impI)
  assume "status m \<noteq> PENDING"
  then show "accept_match now i cu d =
              (if pending_user_id m = Some (u_id cu)
               then (Inl (HTTPException 400
                      (''Cannot accept match in '' @ status_value (status m) @ '' status'')), d)
               else (Inl (HTTPException 403 ''Not authorized to respond to this match''), d))"
    using assms by (simp add: accept_match_def)
next
  assume "status m \<noteq> ACCEPTED"
  then show "confirm_match now i cu d =
              (if pending_user_id m = Some (u_id cu)
               then (Inl (HTTPException 400
                      (''Cannot confirm match in '' @ status_value (status m) @ '' status'')), d)
               else (Inl (HTTPException 403 ''Not authorized to respond to this match''), d))"
    using assms by (simp add: confirm_match_def)
next
  assume t: "status m = CONFIRMED \<or> status m = REJECTED"
  then show "\<exists>e. accept_match now i cu d = (Inl e, d)"
    using assms by (auto simp: accept_match_def)
  from t show "\<exists>e. confirm_match now i cu d = (Inl e, d)"
    using assms by (auto simp: confirm_match_def)
  from t show "\<exists>e. reject_match now i cu d = (Inl e, d)"
    using assms by (auto simp: reject_match_def Let_def split: option.splits)
qed

lemmas store_simps = matched_store_def ann_def bob_def eve_def get_match_def get_offer_def
  get_request_def update_match_def send_match_email_def

text \<open>
  Claim C2 says that \<open>accept\<close> on a match that is not PENDING, and \<open>confirm\<close> on one
  that is not ACCEPTED, fail with the invalid-transition signal. On a CONFIRMED match
  \<open>pending_user_id\<close> is null, so every caller of \<open>accept\<close> is turned away by the check
  of the caller, with 403; and \<open>confirm\<close> on a PENDING match by the requester is a 403
  as well.
\<close>

theorem transitions_wrong_state_counterexample:
  "get_match (matched_store CONFIRMED None) 1 =
     Some \<lparr>m_id = 1, offer_id = 1, request_id = 1, status = CONFIRMED,
           pending_user_id = None, updated_at = 5\<rparr>
   \<and> accept_match 6 1 ann (matched_store CONFIRMED None) =
       (Inl (HTTPException 403 ''Not authorized to respond to this match''),
        matched_store CONFIRMED None)
   \<and> confirm_match 6 1 bob (matched_store PENDING (Some ''ann'')) =
       (Inl (HTTPException 403 ''Not authorized to respond to this match''),
        matched_store PENDING (Some ''ann''))"
  by (simp add: accept_match_def confirm_match_def store_simps)

theorem transitions_wrong_state_witness:
  "accept_match 6 1 bob (matched_store ACCEPTED (Some ''bob'')) =
     (Inl (HTTPException 400 ''Cannot accept match in accepted status''),
      matched_store ACCEPTED (Some ''bob''))
   \<and> accept_match 6 1 ann (matched_store ACCEPTED (Some ''bob'')) =
     (Inl (HTTPException 403 ''Not authorized to respond to this match''),
      matched_store ACCEPTED (Some ''bob''))
   \<and> confirm_match 6 1 ann (matched_store PENDING (Some ''ann'')) =
     (Inl (HTTPException 400 ''Cannot confirm match in pending status''),
      matched_store PENDING (Some ''ann''))
   \<and> (\<exists>e. reject_match 6 1 ann (matched_store REJECTED None) =
         (Inl e, matched_store REJECTED None))"
proof -
  have a: "get_match (matched_store ACCEPTED (Some ''bob'')) 1 =
     Some \<lparr>m_id = 1, offer_id = 1, request_id = 1, status = ACCEPTED,
           pending_user_id = Some ''bob'', updated_at = 5\<rparr>"
    by (simp add: store_simps)
  have p: "get_match (matched_store PENDING (Some ''ann'')) 1 =
     Some \<lparr>m_id = 1, offer_id = 1, request_id = 1, status = PENDING,
           pending_user_id = Some ''ann'', updated_at = 5\<rparr>"
    by (simp add: store_simps)
  have r: "get_match (matched_store REJECTED None) 1 =
     Some \<lparr>m_id = 1, offer_id = 1, request_id = 1, status = REJECTED,
           pending_user_id = None, updated_at = 5\<rparr>"
    by (simp add: store_simps)
  show ?thesis
    using transitions_wrong_state [OF a, where cu=bob and now=6]
      transitions_wrong_state [OF a, where cu=ann and now=6]
      transitions_wrong_state [OF p, where cu=ann and now=6]
      transitions_wrong_state [OF r, where cu=ann and now=6]
    by (simp add: ann_def bob_def)
qed

theorem transitions_authorization_witness:
  "accept_match 6 1 eve (matched_store PENDING (Some ''ann'')) =
     (Inl (HTTPException 403 ''Not authorized to respond to this match''),
      matched_store PENDING (Some ''ann''))
   \<and> confirm_match 6 1 ann (matched_store ACCEPTED (Some ''bob'')) =
     (Inl (HTTPException 403 ''Not authorized to respond to this match''),
      matched_store ACCEPTED (Some ''bob''))
   \<and> reject_match 6 1 eve (matched_store PENDING (Some ''ann'')) =
     (Inl (HTTPException 403 ''Not authorized to reject this match''),
      matched_store PENDING (Some ''ann''))
   \<and> fst (accept_match 6 1 ann (matched_store PENDING (Some ''ann''))) = Inr (1, Some ''bob'')
   \<and> fst (confirm_match 6 1 bob (matched_store ACCEPTED (Some ''bob''))) = Inr 1
   \<and> fst (reject_match 6 1 bob (matched_store PENDING (Some ''ann''))) = Inr 1"
proof -
  have a: "get_match (matched_store ACCEPTED (Some ''bob'')) 1 =
     Some \<lparr>m_id = 1, offer_id = 1, request_id = 1, status = ACCEPTED,
           pending_user_id = Some ''bob'', updated_at = 5\<rparr>"
    by (simp add: store_simps)
  have p: "get_match (matched_store PENDING (Some ''ann'')) 1 =
     Some \<lparr>m_id = 1, offer_id = 1, request_id = 1, status = PENDING,
           pending_user_id = Some ''ann'', updated_at = 5\<rparr>"
    by (simp add: store_simps)
  have s: "fst (accept_match 6 1 ann (matched_store PENDING (Some ''ann''))) = Inr (1, Some ''bob'')"
    "fst (confirm_match 6 1 bob (matched_store ACCEPTED (Some ''bob''))) = Inr 1"
    "fst (reject_match 6 1 bob (matched_store PENDING (Some ''ann''))) = Inr 1"
    by (simp_all add: accept_match_def confirm_match_def reject_match_def Let_def store_simps)
  show ?thesis
    using transitions_authorization [OF p, where cu=eve and now=6]
      transitions_authorization [OF a, where cu=ann and now=6] s
    by (simp add: ann_def bob_def eve_def get_offer_def get_request_def matched_store_def)
qed

theorem transitions_set_pending_user_witness:
  "fst (accept_match 6 1 ann (matched_store PENDING (Some ''ann''))) = Inr (1, Some ''bob'')
   \<and> map_option (\<lambda>m. (status m, pending_user_id m))
        (get_match (snd (accept_match 6 1 ann (matched_store PENDING (Some ''ann'')))) 1)
      = Some (ACCEPTED, Some ''bob'')
   \<and> map_option r_user_id
        (get_request (snd (accept_match 6 1 ann (matched_store PENDING (Some ''ann'')))) 1)
      = Some ''bob''
   \<and> fst (confirm_match 7 1 bob (matched_store ACCEPTED (Some ''bob''))) = Inr 1
   \<and> map_option (\<lambda>m. (status m, pending_user_id m))
        (get_match (snd (confirm_match 7 1 bob (matched_store ACCEPTED (Some ''bob'')))) 1)
      = Some (CONFIRMED, None)
   \<and> fst (reject_match 7 1 bob (matched_store ACCEPTED (Some ''bob''))) = Inr 1
   \<and> map_option (\<lambda>m. (status m, pending_user_id m))
        (get_match (snd (reject_match 7 1 bob (matched_store ACCEPTED (Some ''bob'')))) 1)
      = Some (REJECTED, None)"
  using transitions_set_pending_user [where now=6 and i=1 and cu=ann
      and d="matched_store PENDING (Some ''ann'')" and r="(1, Some ''bob'')"
      and d'="snd (accept_match 6 1 ann (matched_store PENDING (Some ''ann'')))"]
    transitions_set_pending_user [where now=7 and i=1 and cu=bob
      and d="matched_store ACCEPTED (Some ''bob'')" and c=1
      and d'="snd (confirm_match 7 1 bob (matched_store ACCEPTED (Some ''bob'')))"]
    transitions_set_pending_user [where now=7 and i=1 and cu=bob
      and d="matched_store ACCEPTED (Some ''bob'')" and c=1
      and d'="snd (reject_match 7 1 bob (matched_store ACCEPTED (Some ''bob'')))"]
  by (simp add: accept_match_def confirm_match_def reject_match_def Let_def store_simps)

section \<open>Properties of the matching engine\<close>

lemma match_offer_each_eq:
  "match_offer_each now d offer reqs acc = create_each now d (map (Pair offer) reqs) acc"
  by (induction reqs arbitrary: d acc) (simp_all split: sum.splits exn.splits)

lemma match_request_each_eq:
  "match_request_each now d request offs acc =
     create_each now d (map (\<lambda>off. (off, request)) offs) acc"
  by (induction offs arbitrary: d acc) (simp_all split: sum.splits exn.splits)

text \<open>The four outcomes of \<open>create_match\<close>.\<close>

lemma create_match_missing:
  "\<not> rows_present d off req \<Longrightarrow>
   create_match now d off req = Inl (HTTPException 404 ''Offer or request no longer available'')"
  by (auto simp: create_match_def rows_present_def split: option.splits)

lemma create_match_existing:
  assumes "rows_present d off req"
    and "find (\<lambda>m. for_pair (o_id off) (r_id req) m \<and> non_terminal m) (matches d) = Some m"
  shows "create_match now d off req = Inr (m, d)"
  using assms
  by (auto simp: create_match_def rows_present_def for_pair_def conj_assoc split: option.splits)

lemma create_match_new:
  assumes "get_offer d (o_id off) = Some locked" and "get_request d (r_id req) \<noteq> None"
    and "\<forall>m \<in> set (matches d). \<not> for_pair (o_id off) (r_id req) m"
  shows "create_match now d off req =
     Inr (new_match now d off req, add_match (new_match now d off req) (o_user_id locked) d)"
proof -
  have "find (\<lambda>m. offer_id m = o_id off \<and> request_id m = r_id req \<and> non_terminal m)
      (matches d) = None"
    using assms(3) by (auto simp: find_None_iff for_pair_def)
  moreover have "\<not> list_ex (\<lambda>m. offer_id m = o_id off \<and> request_id m = r_id req) (matches d)"
    using assms(3) by (auto simp: list_ex_iff for_pair_def)
  ultimately show ?thesis
    using assms(1,2)
    by (auto simp: create_match_def new_match_def add_match_def Let_def split: option.splits)
qed

lemma create_match_integrity:
  assumes "rows_present d off req"
    and "\<forall>m \<in> set (matches d). for_pair (o_id off) (r_id req) m \<longrightarrow> \<not> non_terminal m"
    and "\<exists>m \<in> set (matches d). for_pair (o_id off) (r_id req) m"
  shows "create_match now d off req = Inl IntegrityError"
proof -
  have "find (\<lambda>m. offer_id m = o_id off \<and> request_id m = r_id req \<and> non_terminal m)
      (matches d) = None"
    using assms(2) by (auto simp: find_None_iff for_pair_def)
  moreover have "list_ex (\<lambda>m. offer_id m = o_id off \<and> request_id m = r_id req) (matches d)"
    using assms(3) by (auto simp: list_ex_iff for_pair_def)
  ultimately show ?thesis
    using assms(1)
    by (auto simp: create_match_def rows_present_def split: option.splits)
qed

lemma find_Some_set: "find P xs = Some x \<Longrightarrow> x \<in> set xs \<and> P x"
  by (induction xs) (auto split: if_splits)

lemma find_not_None: "x \<in> set xs \<Longrightarrow> P x \<Longrightarrow> find P xs \<noteq> None"
  by (auto simp: find_None_iff)

text \<open>A key in use is below the key the table hands out next.\<close>

lemma largest_key_ge: "k \<in> set ks \<Longrightarrow> k \<le> largest_key ks"
  by (induction ks) auto

lemma largest_key_append: "largest_key (xs @ ys) = max (largest_key xs) (largest_key ys)"
  by (induction xs) auto

lemma offer_key_below_next: "off \<in> set (offers d) \<Longrightarrow> o_id off < next_offer_id d"
  using largest_key_ge [of "o_id off" "map o_id (offers d)"]
  by (simp add: next_offer_id_def less_Suc_eq_le)

lemma request_key_below_next: "r \<in> set (requests d) \<Longrightarrow> r_id r < next_request_id d"
  using largest_key_ge [of "r_id r" "map r_id (requests d)"]
  by (simp add: next_request_id_def less_Suc_eq_le)

lemma next_offer_id_append:
  "next_offer_id d \<le> next_offer_id (d\<lparr>offers := offers d @ [off]\<rparr>)"
  by (simp add: next_offer_id_def largest_key_append)

lemma next_request_id_append:
  "next_request_id d \<le> next_request_id (d\<lparr>requests := requests d @ [r]\<rparr>)"
  by (simp add: next_request_id_def largest_key_append)

lemma next_id_other_table:
  "next_request_id (d\<lparr>offers := offs\<rparr>) = next_request_id d"
  "next_offer_id (d\<lparr>requests := rs\<rparr>) = next_offer_id d"
  by (simp_all add: next_offer_id_def next_request_id_def)

lemma add_match_fields [simp]:
  "matches (add_match m u d) = matches d @ [m]"
  "offers (add_match m u d) = offers d"
  "requests (add_match m u d) = requests d"
  "next_offer_id (add_match m u d) = next_offer_id d"
  "next_request_id (add_match m u d) = next_request_id d"
  by (simp_all add: add_match_def send_match_email_def next_offer_id_def next_request_id_def)

lemma rows_present_add_match [simp]:
  "rows_present (add_match m u d) off req = rows_present d off req"
  by (simp add: rows_present_def get_offer_def get_request_def)

lemma new_match_fields [simp]:
  "offer_id (new_match now d off req) = o_id off"
  "request_id (new_match now d off req) = r_id req"
  "status (new_match now d off req) = PENDING"
  "pending_user_id (new_match now d off req) = Some (o_user_id off)"
  "non_terminal (new_match now d off req)"
  "for_pair a b (new_match now d off req) \<longleftrightarrow> o_id off = a \<and> r_id req = b"
  by (simp_all add: new_match_def non_terminal_def for_pair_def)

lemma create_match_Inr_cases:
  assumes "create_match now d off req = Inr (x, d1)"
  shows "rows_present d off req \<and>
    ((d1 = d \<and> x \<in> set (matches d) \<and> for_pair (o_id off) (r_id req) x \<and> non_terminal x)
     \<or> (\<exists>locked. get_offer d (o_id off) = Some locked
          \<and> (\<forall>m \<in> set (matches d). \<not> for_pair (o_id off) (r_id req) m)
          \<and> x = new_match now d off req
          \<and> d1 = add_match x (o_user_id locked) d))"
proof (cases "rows_present d off req")
  case False
  with assms create_match_missing [of d off req now] show ?thesis by simp
next
  case True
  then obtain locked where locked: "get_offer d (o_id off) = Some locked"
    and rq: "get_request d (r_id req) \<noteq> None"
    by (auto simp: rows_present_def)
  show ?thesis
  proof (cases "find (\<lambda>m. for_pair (o_id off) (r_id req) m \<and> non_terminal m) (matches d)")
    case (Some m)
    from create_match_existing [OF True Some, of now] assms have "x = m" "d1 = d" by simp_all
    with find_Some_set [OF Some] True show ?thesis by simp
  next
    case None
    show ?thesis
    proof (cases "\<exists>m \<in> set (matches d). for_pair (o_id off) (r_id req) m")
      case True
      have "\<forall>m \<in> set (matches d). for_pair (o_id off) (r_id req) m \<longrightarrow> \<not> non_terminal m"
        using None by (auto simp: find_None_iff)
      from create_match_integrity [OF \<open>rows_present d off req\<close> this True, of now] assms
      show ?thesis by simp
    next
      case False
      then have no: "\<forall>m \<in> set (matches d). \<not> for_pair (o_id off) (r_id req) m" by simp
      from create_match_new [OF locked rq no, of now] assms
      have "x = new_match now d off req" "d1 = add_match (new_match now d off req) (o_user_id locked) d"
        by auto
      with locked no \<open>rows_present d off req\<close> show ?thesis by simp
    qed
  qed
qed

lemma create_match_Inl_cases:
  assumes "create_match now d off req = Inl e"
  shows "(e = HTTPException 404 ''Offer or request no longer available''
          \<and> \<not> rows_present d off req)
       \<or> (e = IntegrityError \<and> rows_present d off req
          \<and> (\<exists>m \<in> set (matches d). for_pair (o_id off) (r_id req) m \<and> \<not> non_terminal m))"
proof (cases "rows_present d off req")
  case False
  with assms create_match_missing [of d off req now] show ?thesis by simp
next
  case True
  then obtain locked where locked: "get_offer d (o_id off) = Some locked"
    and rq: "get_request d (r_id req) \<noteq> None"
    by (auto simp: rows_present_def)
  show ?thesis
  proof (cases "find (\<lambda>m. for_pair (o_id off) (r_id req) m \<and> non_terminal m) (matches d)")
    case (Some m)
    from create_match_existing [OF True Some, of now] assms show ?thesis by simp
  next
    case None
    then have allterm: "\<forall>m \<in> set (matches d). for_pair (o_id off) (r_id req) m \<longrightarrow> \<not> non_terminal m"
      by (auto simp: find_None_iff)
    show ?thesis
    proof (cases "\<exists>m \<in> set (matches d). for_pair (o_id off) (r_id req) m")
      case True
      from create_match_integrity [OF \<open>rows_present d off req\<close> allterm True, of now] assms
      have "e = IntegrityError" by simp
      with True allterm \<open>rows_present d off req\<close> show ?thesis by blast
    next
      case False
      then have no: "\<forall>m \<in> set (matches d). \<not> for_pair (o_id off) (r_id req) m" by simp
      from create_match_new [OF locked rq no, of now] assms show ?thesis by simp
    qed
  qed
qed

text \<open>One step of the loop, by the outcome of \<open>create_match\<close>.\<close>

lemma create_each_abort:
  "create_match now d off req = Inl IntegrityError \<Longrightarrow>
   create_each now d ((off, req) # ps) acc = Inl IntegrityError"
  by simp

lemma create_each_Cons_Inr:
  assumes "create_each now d ((off, req) # ps) acc = Inr (r, d')"
  shows "(\<not> rows_present d off req \<and> create_each now d ps acc = Inr (r, d'))
       \<or> (\<exists>x d1. create_match now d off req = Inr (x, d1)
             \<and> create_each now d1 ps (acc @ [x]) = Inr (r, d'))"
proof (cases "create_match now d off req")
  case (Inl e)
  from create_match_Inl_cases [OF Inl] show ?thesis
  proof
    assume "e = HTTPException 404 ''Offer or request no longer available''
          \<and> \<not> rows_present d off req"
    with assms Inl show ?thesis by simp
  next
    assume "e = IntegrityError \<and> rows_present d off req
          \<and> (\<exists>m \<in> set (matches d). for_pair (o_id off) (r_id req) m \<and> \<not> non_terminal m)"
    with assms Inl show ?thesis by simp
  qed
next
  case (Inr p)
  then obtain x d1 where "create_match now d off req = Inr (x, d1)" by (cases p) simp
  with assms show ?thesis by simp
qed

text \<open>A pair that has its one non-terminal match keeps exactly that match.\<close>

lemma create_each_keeps_single:
  assumes "create_each now d ps acc = Inr (r, d')"
    and "filter (for_pair a b) (matches d) = [m]" and "non_terminal m"
  shows "filter (for_pair a b) (matches d') = [m]"
  using assms
proof (induction ps arbitrary: d acc)
  case Nil
  then show ?case by simp
next
  case (Cons p ps)
  obtain off req where p: "p = (off, req)" by (cases p)
  from Cons.prems(1) p have "create_each now d ((off, req) # ps) acc = Inr (r, d')" by simp
  from create_each_Cons_Inr [OF this] show ?case
  proof (elim disjE conjE exE)
    assume "create_each now d ps acc = Inr (r, d')"
    from Cons.IH [OF this Cons.prems(2,3)] show ?thesis .
  next
    fix x d1
    assume cm: "create_match now d off req = Inr (x, d1)"
      and rest: "create_each now d1 ps (acc @ [x]) = Inr (r, d')"
    have m_in: "m \<in> set (matches d)" "for_pair a b m"
      using Cons.prems(2) filter_eq_ConsD [of "for_pair a b" "matches d" m "[]"]
      by auto
    have "filter (for_pair a b) (matches d1) = [m]"
      using create_match_Inr_cases [OF cm]
    proof (elim conjE disjE exE)
      assume "d1 = d"
      with Cons.prems(2) show ?thesis by simp
    next
      fix locked
      assume no: "\<forall>y \<in> set (matches d). \<not> for_pair (o_id off) (r_id req) y"
        and x: "x = new_match now d off req"
        and d1: "d1 = add_match x (o_user_id locked) d"
      from no m_in have "\<not> (o_id off = a \<and> r_id req = b)" by (auto simp: for_pair_def)
      with x d1 Cons.prems(2) show ?thesis by simp
    qed
    from Cons.IH [OF rest this Cons.prems(3)] show ?thesis .
  qed
qed

text \<open>A pair without any match gets exactly one, PENDING, awaiting the offer's owner.\<close>

lemma create_each_makes_single:
  assumes "create_each now d ps acc = Inr (r, d')"
    and "\<forall>x \<in> set (matches d). \<not> for_pair a b x"
    and "\<exists>p \<in> set ps. o_id (fst p) = a \<and> r_id (snd p) = b \<and> rows_present d (fst p) (snd p)"
    and "\<forall>p \<in> set ps. o_id (fst p) = a \<longrightarrow> o_user_id (fst p) = u"
  shows "\<exists>m. filter (for_pair a b) (matches d') = [m] \<and> status m = PENDING
           \<and> pending_user_id m = Some u"
  using assms
proof (induction ps arbitrary: d acc)
  case Nil
  then show ?case by simp
next
  case (Cons p ps)
  obtain off req where p: "p = (off, req)" by (cases p)
  have users: "\<forall>q \<in> set ps. o_id (fst q) = a \<longrightarrow> o_user_id (fst q) = u"
    using Cons.prems(4) by simp
  from Cons.prems(1) p have "create_each now d ((off, req) # ps) acc = Inr (r, d')" by simp
  from create_each_Cons_Inr [OF this] show ?case
  proof (elim disjE conjE exE)
    assume missing: "\<not> rows_present d off req"
      and rest: "create_each now d ps acc = Inr (r, d')"
    from missing Cons.prems(3) p
    have "\<exists>q \<in> set ps. o_id (fst q) = a \<and> r_id (snd q) = b \<and> rows_present d (fst q) (snd q)"
      by auto
    from Cons.IH [OF rest Cons.prems(2) this users] show ?thesis .
  next
    fix x d1
    assume cm: "create_match now d off req = Inr (x, d1)"
      and rest: "create_each now d1 ps (acc @ [x]) = Inr (r, d')"
    from create_match_Inr_cases [OF cm] show ?thesis
    proof (elim conjE disjE exE)
      assume same: "d1 = d" and x_in: "x \<in> set (matches d)"
        and x_pair: "for_pair (o_id off) (r_id req) x"
      from x_in x_pair Cons.prems(2) have "\<not> (o_id off = a \<and> r_id req = b)" by auto
      with Cons.prems(3) p
      have "\<exists>q \<in> set ps. o_id (fst q) = a \<and> r_id (snd q) = b \<and> rows_present d (fst q) (snd q)"
        by auto
      from Cons.IH [OF rest [unfolded same] Cons.prems(2) this users] show ?thesis .
    next
      fix locked
      assume x: "x = new_match now d off req"
        and d1: "d1 = add_match x (o_user_id locked) d"
      show ?thesis
      proof (cases "o_id off = a \<and> r_id req = b")
        case True
        then have "o_user_id off = u" using Cons.prems(4) p by simp
        with True x d1 Cons.prems(2)
        have one: "filter (for_pair a b) (matches d1) = [x]"
          and st: "status x = PENDING" "pending_user_id x = Some u" "non_terminal x"
          by (simp_all add: filter_empty_conv)
        from create_each_keeps_single [OF rest one st(3)] st show ?thesis by simp
      next
        case False
        with x d1 Cons.prems(2)
        have none: "\<forall>y \<in> set (matches d1). \<not> for_pair a b y" by auto
        from False Cons.prems(3) p d1
        have "\<exists>q \<in> set ps. o_id (fst q) = a \<and> r_id (snd q) = b \<and> rows_present d1 (fst q) (snd q)"
          by auto
        from Cons.IH [OF rest none this users] show ?thesis .
      qed
    qed
  qed
qed

lemma get_offer_Some: "get_offer d i = Some off \<Longrightarrow> off \<in> set (offers d) \<and> o_id off = i"
  unfolding get_offer_def by (rule find_Some_set)

lemma get_request_Some: "get_request d i = Some r \<Longrightarrow> r \<in> set (requests d) \<and> r_id r = i"
  unfolding get_request_def by (rule find_Some_set)

lemma rows_present_keys:
  assumes "rows_present d off req"
  shows "o_id off < next_offer_id d \<and> r_id req < next_request_id d"
proof -
  from assms obtain lo lr where "get_offer d (o_id off) = Some lo"
    and "get_request d (r_id req) = Some lr"
    by (auto simp: rows_present_def)
  with get_offer_Some [of d "o_id off" lo] get_request_Some [of d "r_id req" lr]
    offer_key_below_next [of lo d] request_key_below_next [of lr d]
  show ?thesis by auto
qed

text \<open>What the loop leaves alone, and the invariant it keeps.\<close>

lemma create_match_frame:
  assumes "create_match now d off req = Inr (x, d1)"
  shows "offers d1 = offers d \<and> requests d1 = requests d
       \<and> next_offer_id d1 = next_offer_id d \<and> next_request_id d1 = next_request_id d"
  using create_match_Inr_cases [OF assms] by auto

lemma create_match_keys_ok:
  assumes "create_match now d off req = Inr (x, d1)" and "keys_ok d"
  shows "keys_ok d1"
proof -
  from create_match_Inr_cases [OF assms(1)] have present: "rows_present d off req" by simp
  from create_match_Inr_cases [OF assms(1)] show ?thesis
  proof (elim conjE disjE exE)
    assume "d1 = d"
    with assms(2) show ?thesis by simp
  next
    fix locked
    assume x: "x = new_match now d off req" and d1: "d1 = add_match x (o_user_id locked) d"
    from rows_present_keys [OF present] x d1 assms(2)
    show ?thesis by (auto simp: keys_ok_def)
  qed
qed

lemma create_each_frame:
  assumes "create_each now d ps acc = Inr (r, d')" and "keys_ok d"
  shows "offers d' = offers d \<and> requests d' = requests d
       \<and> next_offer_id d' = next_offer_id d \<and> next_request_id d' = next_request_id d
       \<and> keys_ok d'"
  using assms
proof (induction ps arbitrary: d acc)
  case Nil
  then show ?case by simp
next
  case (Cons p ps)
  obtain off req where p: "p = (off, req)" by (cases p)
  from Cons.prems(1) p have "create_each now d ((off, req) # ps) acc = Inr (r, d')" by simp
  from create_each_Cons_Inr [OF this] show ?case
  proof (elim disjE conjE exE)
    assume "create_each now d ps acc = Inr (r, d')"
    from Cons.IH [OF this Cons.prems(2)] show ?thesis .
  next
    fix x d1
    assume cm: "create_match now d off req = Inr (x, d1)"
      and rest: "create_each now d1 ps (acc @ [x]) = Inr (r, d')"
    from Cons.IH [OF rest create_match_keys_ok [OF cm Cons.prems(2)]] create_match_frame [OF cm]
    show ?thesis by simp
  qed
qed

text \<open>
  What \<open>create_offer\<close> and \<open>create_request\<close> have done, by their outcome. They
  return for naive times only: with an aware time the comparison with \<open>utcnow()\<close>
  raises, if the comparison of the two times with each other has not already raised or
  refused the window.
\<close>

lemma create_offer_Inr:
  assumes "create_offer now start_at end_at cu d = (Inr oid, d')"
  shows "\<exists>created.
      oid = next_offer_id d
    \<and> match_offer now
         (d\<lparr>offers := offers d @ [\<lparr>o_id = next_offer_id d, o_user_id = u_id cu,
                o_start_at = column_value start_at, o_end_at = column_value end_at\<rparr>]\<rparr>)
         \<lparr>o_id = next_offer_id d, o_user_id = u_id cu,
           o_start_at = column_value start_at, o_end_at = column_value end_at\<rparr> =
           Inr (created, d')"
  using assms
  by (auto simp: create_offer_def Let_def split: if_splits sum.splits)

lemma create_request_Inr:
  assumes "create_request now start_at end_at cu d = (Inr rid, d')"
  shows "\<exists>created.
      rid = next_request_id d
    \<and> match_request now
         (d\<lparr>requests := requests d @ [\<lparr>r_id = next_request_id d, r_user_id = u_id cu,
                r_start_at = column_value start_at, r_end_at = column_value end_at\<rparr>]\<rparr>)
         \<lparr>r_id = next_request_id d, r_user_id = u_id cu,
           r_start_at = column_value start_at, r_end_at = column_value end_at\<rparr> =
           Inr (created, d')"
  using assms
  by (auto simp: create_request_def Let_def split: if_splits sum.splits)

lemma create_offer_Inl:
  assumes "create_offer now start_at end_at cu d = (Inl e, d')"
  shows "d' = d \<or> d' = d\<lparr>offers := offers d @ [\<lparr>o_id = next_offer_id d, o_user_id = u_id cu,
                o_start_at = column_value start_at, o_end_at = column_value end_at\<rparr>]\<rparr>"
  using assms
  by (auto simp: create_offer_def Let_def split: if_splits sum.splits)

lemma create_request_Inl:
  assumes "create_request now start_at end_at cu d = (Inl e, d')"
  shows "d' = d \<or> d' = d\<lparr>requests := requests d @ [\<lparr>r_id = next_request_id d,
                r_user_id = u_id cu, r_start_at = column_value start_at,
                r_end_at = column_value end_at\<rparr>]\<rparr>"
  using assms
  by (auto simp: create_request_def Let_def split: if_splits sum.splits)

lemma create_offer_returns_naive:
  assumes "create_offer now start_at end_at cu d = (Inr oid, d')"
  shows "\<exists>s e. start_at = Naive s \<and> end_at = Naive e"
  using assms
  by (cases start_at; cases end_at)
    (simp_all add: create_offer_def or_else_def split: if_splits)

lemma create_request_returns_naive:
  assumes "create_request now start_at end_at cu d = (Inr rid, d')"
  shows "\<exists>s e. start_at = Naive s \<and> end_at = Naive e"
  using assms
  by (cases start_at; cases end_at)
    (simp_all add: create_request_def or_else_def split: if_splits)

lemma create_offer_aware:
  assumes "start_at = Aware s utcoffset \<or> end_at = Aware e utcoffset'"
  shows "create_offer now start_at end_at cu d = (Inl TypeError, d)
   \<or> create_offer now start_at end_at cu d =
        (Inl (HTTPException 400 ''Invalid time range''), d)"
  using assms
  by (cases start_at; cases end_at) (simp_all add: create_offer_def or_else_def)

lemma create_request_aware:
  assumes "start_at = Aware s utcoffset \<or> end_at = Aware e utcoffset'"
  shows "create_request now start_at end_at cu d = (Inl TypeError, d)
   \<or> create_request now start_at end_at cu d =
        (Inl (HTTPException 400 ''Invalid time range''), d)"
  using assms
  by (cases start_at; cases end_at) (simp_all add: create_request_def or_else_def)

text \<open>
  \<open>keys_ok\<close> holds in the empty store, and \<open>create_offer\<close> and \<open>create_request\<close>
  keep it, whatever their outcome. \<open>delete_offer\<close> and \<open>delete_request\<close> do not: see
  \<open>delete_breaks_keys_ok\<close> below.
\<close>

lemma keys_ok_empty_store: "keys_ok empty_store"
  by (simp add: keys_ok_def empty_store_def)

lemma keys_ok_new_offer:
  assumes "keys_ok d"
  shows "keys_ok (d\<lparr>offers := offers d @ [off]\<rparr>)"
  unfolding keys_ok_def
proof
  fix m
  assume "m \<in> set (matches (d\<lparr>offers := offers d @ [off]\<rparr>))"
  then have "offer_id m < next_offer_id d \<and> request_id m < next_request_id d"
    using assms by (simp add: keys_ok_def)
  with next_offer_id_append [of d off]
  show "offer_id m < next_offer_id (d\<lparr>offers := offers d @ [off]\<rparr>)
      \<and> request_id m < next_request_id (d\<lparr>offers := offers d @ [off]\<rparr>)"
    by (simp add: next_id_other_table)
qed

lemma keys_ok_new_request:
  assumes "keys_ok d"
  shows "keys_ok (d\<lparr>requests := requests d @ [r]\<rparr>)"
  unfolding keys_ok_def
proof
  fix m
  assume "m \<in> set (matches (d\<lparr>requests := requests d @ [r]\<rparr>))"
  then have "offer_id m < next_offer_id d \<and> request_id m < next_request_id d"
    using assms by (simp add: keys_ok_def)
  with next_request_id_append [of d r]
  show "offer_id m < next_offer_id (d\<lparr>requests := requests d @ [r]\<rparr>)
      \<and> request_id m < next_request_id (d\<lparr>requests := requests d @ [r]\<rparr>)"
    by (simp add: next_id_other_table)
qed

lemma create_offer_keys_ok:
  assumes "keys_ok d"
  shows "keys_ok (snd (create_offer now start_at end_at cu d))"
proof -
  define new_offer where "new_offer = \<lparr>o_id = next_offer_id d, o_user_id = u_id cu,
      o_start_at = column_value start_at, o_end_at = column_value end_at\<rparr>"
  define dA where "dA = d\<lparr>offers := offers d @ [new_offer]\<rparr>"
  have okA: "keys_ok dA"
    unfolding dA_def using assms by (rule keys_ok_new_offer)
  obtain res d' where c: "create_offer now start_at end_at cu d = (res, d')"
    by (cases "create_offer now start_at end_at cu d")
  have "keys_ok d'"
  proof (cases res)
    case (Inl e)
    from create_offer_Inl [OF c [unfolded Inl]] have "d' = d \<or> d' = dA"
      by (simp add: dA_def new_offer_def)
    with assms okA show ?thesis by blast
  next
    case (Inr oid)
    from create_offer_Inr [OF c [unfolded Inr]] obtain created where
      "match_offer now dA new_offer = Inr (created, d')"
      by (auto simp: dA_def new_offer_def)
    then have "create_each now dA (map (Pair new_offer)
        (filter (\<lambda>r. r_start_at r \<ge> o_start_at new_offer \<and> r_end_at r \<le> o_end_at new_offer
                       \<and> r_user_id r \<noteq> o_user_id new_offer) (requests dA))) [] =
        Inr (created, d')"
      by (simp add: match_offer_def match_offer_each_eq)
    from create_each_frame [OF this okA] show ?thesis by simp
  qed
  with c show ?thesis by simp
qed

lemma create_request_keys_ok:
  assumes "keys_ok d"
  shows "keys_ok (snd (create_request now start_at end_at cu d))"
proof -
  define new_request where "new_request = \<lparr>r_id = next_request_id d, r_user_id = u_id cu,
      r_start_at = column_value start_at, r_end_at = column_value end_at\<rparr>"
  define dA where "dA = d\<lparr>requests := requests d @ [new_request]\<rparr>"
  have okA: "keys_ok dA"
    unfolding dA_def using assms by (rule keys_ok_new_request)
  obtain res d' where c: "create_request now start_at end_at cu d = (res, d')"
    by (cases "create_request now start_at end_at cu d")
  have "keys_ok d'"
  proof (cases res)
    case (Inl e)
    from create_request_Inl [OF c [unfolded Inl]] have "d' = d \<or> d' = dA"
      by (simp add: dA_def new_request_def)
    with assms okA show ?thesis by blast
  next
    case (Inr rid)
    from create_request_Inr [OF c [unfolded Inr]] obtain created where
      "match_request now dA new_request = Inr (created, d')"
      by (auto simp: dA_def new_request_def)
    then have "create_each now dA (map (\<lambda>off. (off, new_request))
        (filter (\<lambda>off. o_start_at off \<le> r_start_at new_request
                         \<and> o_end_at off \<ge> r_end_at new_request
                         \<and> o_user_id off \<noteq> r_user_id new_request) (offers dA))) [] =
        Inr (created, d')"
      by (simp add: match_request_def match_request_each_eq)
    from create_each_frame [OF this okA] show ?thesis by simp
  qed
  with c show ?thesis by simp
qed

text \<open>
  In a store where \<open>keys_ok\<close> holds, an offer and a request of different users, the
  window of the request inside the window of the offer, end with exactly one match of
  their pair, PENDING and awaiting the owner of the offer, whichever is created first.
\<close>

lemma offer_then_request:
  assumes ok: "keys_ok d"
    and inside: "r_start \<ge> o_start" "r_end \<le> o_end"
    and owners: "u_id owner \<noteq> u_id requester"
    and co: "create_offer now1 (Naive o_start) (Naive o_end) owner d = (Inr oid, d1)"
    and cr: "create_request now2 (Naive r_start) (Naive r_end) requester d1 = (Inr rid, d2)"
  shows "\<exists>m. filter (for_pair oid rid) (matches d2) = [m] \<and> status m = PENDING
           \<and> pending_user_id m = Some (u_id owner)"
proof -
  define new_offer where "new_offer = \<lparr>o_id = next_offer_id d, o_user_id = u_id owner,
      o_start_at = o_start, o_end_at = o_end\<rparr>"
  define dA where "dA = d\<lparr>offers := offers d @ [new_offer]\<rparr>"
  from create_offer_Inr [OF co] obtain created where oid: "oid = next_offer_id d"
    and mo: "match_offer now1 dA new_offer = Inr (created, d1)"
    by (auto simp: new_offer_def dA_def)
  have okA: "keys_ok dA"
    unfolding dA_def using ok by (rule keys_ok_new_offer)
  from mo have "create_each now1 dA (map (Pair new_offer)
      (filter (\<lambda>r. r_start_at r \<ge> o_start_at new_offer \<and> r_end_at r \<le> o_end_at new_offer
                     \<and> r_user_id r \<noteq> o_user_id new_offer) (requests dA))) [] = Inr (created, d1)"
    by (simp add: match_offer_def match_offer_each_eq)
  from create_each_frame [OF this okA]
  have d1: "offers d1 = offers d @ [new_offer]" "keys_ok d1"
    by (simp_all add: dA_def)
  define new_request where "new_request = \<lparr>r_id = next_request_id d1, r_user_id = u_id requester,
      r_start_at = r_start, r_end_at = r_end\<rparr>"
  define dB where "dB = d1\<lparr>requests := requests d1 @ [new_request]\<rparr>"
  from create_request_Inr [OF cr] obtain created' where rid: "rid = next_request_id d1"
    and mr: "match_request now2 dB new_request = Inr (created', d2)"
    by (auto simp: new_request_def dB_def)
  let ?ps = "map (\<lambda>off. (off, new_request))
      (filter (\<lambda>off. o_start_at off \<le> r_start_at new_request \<and> o_end_at off \<ge> r_end_at new_request
                       \<and> o_user_id off \<noteq> r_user_id new_request) (offers dB))"
  from mr have run: "create_each now2 dB ?ps [] = Inr (created', d2)"
    by (simp add: match_request_def match_request_each_eq)
  have no_match: "\<forall>x \<in> set (matches dB). \<not> for_pair oid rid x"
    using d1(2) rid by (auto simp: keys_ok_def dB_def for_pair_def)
  have offer_in: "new_offer \<in> set (offers dB)" and request_in: "new_request \<in> set (requests dB)"
    using d1(1) by (simp_all add: dB_def)
  have present: "rows_present dB new_offer new_request"
    unfolding rows_present_def get_offer_def get_request_def
    using find_not_None [OF offer_in, of "\<lambda>off. o_id off = o_id new_offer"]
      find_not_None [OF request_in, of "\<lambda>r. r_id r = r_id new_request"]
    by simp
  have cand: "(new_offer, new_request) \<in> set ?ps"
    using offer_in inside owners by (simp add: new_offer_def new_request_def)
  have witness: "\<exists>p \<in> set ?ps. o_id (fst p) = oid \<and> r_id (snd p) = rid
      \<and> rows_present dB (fst p) (snd p)"
    using cand present oid rid
    by (intro bexI [of _ "(new_offer, new_request)"]) (simp_all add: new_offer_def new_request_def)
  have users: "\<forall>p \<in> set ?ps. o_id (fst p) = oid \<longrightarrow> o_user_id (fst p) = u_id owner"
  proof (intro ballI impI)
    fix p
    assume p: "p \<in> set ?ps" and i: "o_id (fst p) = oid"
    from p have "fst p \<in> set (offers dB)" by auto
    then have "fst p \<in> set (offers d) \<or> fst p = new_offer"
      using d1(1) by (auto simp: dB_def)
    then show "o_user_id (fst p) = u_id owner"
    proof
      assume "fst p \<in> set (offers d)"
      then have "o_id (fst p) < next_offer_id d" by (rule offer_key_below_next)
      with i oid show ?thesis by simp
    next
      assume "fst p = new_offer"
      then show ?thesis by (simp add: new_offer_def)
    qed
  qed
  from create_each_makes_single [OF run no_match witness users] show ?thesis .
qed

lemma request_then_offer:
  assumes ok: "keys_ok d"
    and inside: "r_start \<ge> o_start" "r_end \<le> o_end"
    and owners: "u_id owner \<noteq> u_id requester"
    and cr: "create_request now1 (Naive r_start) (Naive r_end) requester d = (Inr rid, d1)"
    and co: "create_offer now2 (Naive o_start) (Naive o_end) owner d1 = (Inr oid, d2)"
  shows "\<exists>m. filter (for_pair oid rid) (matches d2) = [m] \<and> status m = PENDING
           \<and> pending_user_id m = Some (u_id owner)"
proof -
  define new_request where "new_request = \<lparr>r_id = next_request_id d, r_user_id = u_id requester,
      r_start_at = r_start, r_end_at = r_end\<rparr>"
  define dA where "dA = d\<lparr>requests := requests d @ [new_request]\<rparr>"
  from create_request_Inr [OF cr] obtain created where rid: "rid = next_request_id d"
    and mr: "match_request now1 dA new_request = Inr (created, d1)"
    by (auto simp: new_request_def dA_def)
  have okA: "keys_ok dA"
    unfolding dA_def using ok by (rule keys_ok_new_request)
  from mr have "create_each now1 dA (map (\<lambda>off. (off, new_request))
      (filter (\<lambda>off. o_start_at off \<le> r_start_at new_request \<and> o_end_at off \<ge> r_end_at new_request
                       \<and> o_user_id off \<noteq> r_user_id new_request) (offers dA))) [] = Inr (created, d1)"
    by (simp add: match_request_def match_request_each_eq)
  from create_each_frame [OF this okA]
  have d1: "requests d1 = requests d @ [new_request]" "keys_ok d1"
    by (simp_all add: dA_def)
  define new_offer where "new_offer = \<lparr>o_id = next_offer_id d1, o_user_id = u_id owner,
      o_start_at = o_start, o_end_at = o_end\<rparr>"
  define dB where "dB = d1\<lparr>offers := offers d1 @ [new_offer]\<rparr>"
  from create_offer_Inr [OF co] obtain created' where oid: "oid = next_offer_id d1"
    and mo: "match_offer now2 dB new_offer = Inr (created', d2)"
    by (auto simp: new_offer_def dB_def)
  let ?ps = "map (Pair new_offer)
      (filter (\<lambda>r. r_start_at r \<ge> o_start_at new_offer \<and> r_end_at r \<le> o_end_at new_offer
                     \<and> r_user_id r \<noteq> o_user_id new_offer) (requests dB))"
  from mo have run: "create_each now2 dB ?ps [] = Inr (created', d2)"
    by (simp add: match_offer_def match_offer_each_eq)
  have no_match: "\<forall>x \<in> set (matches dB). \<not> for_pair oid rid x"
    using d1(2) oid by (auto simp: keys_ok_def dB_def for_pair_def)
  have offer_in: "new_offer \<in> set (offers dB)" and request_in: "new_request \<in> set (requests dB)"
    using d1(1) by (simp_all add: dB_def)
  have present: "rows_present dB new_offer new_request"
    unfolding rows_present_def get_offer_def get_request_def
    using find_not_None [OF offer_in, of "\<lambda>off. o_id off = o_id new_offer"]
      find_not_None [OF request_in, of "\<lambda>r. r_id r = r_id new_request"]
    by simp
  have cand: "(new_offer, new_request) \<in> set ?ps"
    using request_in inside owners by (simp add: new_offer_def new_request_def)
  have witness: "\<exists>p \<in> set ?ps. o_id (fst p) = oid \<and> r_id (snd p) = rid
      \<and> rows_present dB (fst p) (snd p)"
    using cand present oid rid
    by (intro bexI [of _ "(new_offer, new_request)"]) (simp_all add: new_offer_def new_request_def)
  have users: "\<forall>p \<in> set ?ps. o_id (fst p) = oid \<longrightarrow> o_user_id (fst p) = u_id owner"
    by (auto simp: new_offer_def)
  from create_each_makes_single [OF run no_match witness users] show ?thesis .
qed

lemma rows_present_cong:
  "offers d1 = offers d \<Longrightarrow> requests d1 = requests d \<Longrightarrow>
   rows_present d1 off req = rows_present d off req"
  by (simp add: rows_present_def get_offer_def get_request_def)

lemma create_match_Inr_result:
  assumes "create_match now d off req = Inr (x, d1)"
  shows "for_pair (o_id off) (r_id req) x \<and> non_terminal x \<and> x \<in> set (matches d1)
       \<and> set (matches d1) \<subseteq> insert x (set (matches d))
       \<and> set (matches d) \<subseteq> set (matches d1)"
  using create_match_Inr_cases [OF assms] by auto

text \<open>
  When every match that the store holds for a candidate pair is non-terminal, no flush
  can violate the unique constraint: the loop runs through, skips the candidates whose
  rows are gone, and returns one match for each of the others.
\<close>

lemma create_each_total:
  assumes "\<forall>m \<in> set (matches d).
      (\<exists>p \<in> set ps. for_pair (o_id (fst p)) (r_id (snd p)) m) \<longrightarrow> non_terminal m"
  shows "\<exists>ms d'. create_each now d ps acc = Inr (acc @ ms, d')
      \<and> map (\<lambda>m. (offer_id m, request_id m)) ms =
          map (\<lambda>p. (o_id (fst p), r_id (snd p)))
            (filter (\<lambda>p. rows_present d (fst p) (snd p)) ps)
      \<and> (\<forall>m \<in> set ms. non_terminal m \<and> m \<in> set (matches d'))
      \<and> set (matches d) \<subseteq> set (matches d')"
  using assms
proof (induction ps arbitrary: d acc)
  case Nil
  then show ?case by simp
next
  case (Cons p ps)
  obtain off req where p: "p = (off, req)" by (cases p)
  have rest_ok: "\<forall>m \<in> set (matches d).
      (\<exists>q \<in> set ps. for_pair (o_id (fst q)) (r_id (snd q)) m) \<longrightarrow> non_terminal m"
    using Cons.prems by auto
  show ?case
  proof (cases "rows_present d off req")
    case False
    have "create_each now d (p # ps) acc = create_each now d ps acc"
      using False p by (simp add: create_match_missing)
    moreover have "filter (\<lambda>q. rows_present d (fst q) (snd q)) (p # ps) =
        filter (\<lambda>q. rows_present d (fst q) (snd q)) ps"
      using False p by simp
    ultimately show ?thesis
      using Cons.IH [OF rest_ok, of acc] by (simp only:)
  next
    case True
    have "\<exists>x d1. create_match now d off req = Inr (x, d1)"
    proof (cases "create_match now d off req")
      case (Inl e)
      from create_match_Inl_cases [OF Inl] True
      obtain m where "m \<in> set (matches d)" "for_pair (o_id off) (r_id req) m" "\<not> non_terminal m"
        by auto
      with Cons.prems p show ?thesis by auto
    next
      case (Inr r)
      then show ?thesis by (cases r) simp
    qed
    then obtain x d1 where cm: "create_match now d off req = Inr (x, d1)" by blast
    note res = create_match_Inr_result [OF cm]
    note frame = create_match_frame [OF cm]
    have next_ok: "\<forall>m \<in> set (matches d1).
        (\<exists>q \<in> set ps. for_pair (o_id (fst q)) (r_id (snd q)) m) \<longrightarrow> non_terminal m"
      using rest_ok res by auto
    from Cons.IH [OF next_ok, of "acc @ [x]"]
    obtain ms where "\<exists>d'. create_each now d1 ps (acc @ [x]) = Inr ((acc @ [x]) @ ms, d')
        \<and> map (\<lambda>m. (offer_id m, request_id m)) ms =
          map (\<lambda>p. (o_id (fst p), r_id (snd p)))
            (filter (\<lambda>p. rows_present d1 (fst p) (snd p)) ps)
        \<and> (\<forall>m \<in> set ms. non_terminal m \<and> m \<in> set (matches d'))
        \<and> set (matches d1) \<subseteq> set (matches d')" ..
    then obtain d' where
      ih: "create_each now d1 ps (acc @ [x]) = Inr ((acc @ [x]) @ ms, d')
        \<and> map (\<lambda>m. (offer_id m, request_id m)) ms =
          map (\<lambda>p. (o_id (fst p), r_id (snd p)))
            (filter (\<lambda>p. rows_present d1 (fst p) (snd p)) ps)
        \<and> (\<forall>m \<in> set ms. non_terminal m \<and> m \<in> set (matches d'))
        \<and> set (matches d1) \<subseteq> set (matches d')" ..
    note r = ih [THEN conjunct1]
    note pairs = ih [THEN conjunct2, THEN conjunct1]
    note each = ih [THEN conjunct2, THEN conjunct2, THEN conjunct1]
    note grow = ih [THEN conjunct2, THEN conjunct2, THEN conjunct2]
    have same: "filter (\<lambda>p. rows_present d1 (fst p) (snd p)) ps =
        filter (\<lambda>p. rows_present d (fst p) (snd p)) ps"
      using frame rows_present_cong [of d1 d] by simp
    have "create_each now d (p # ps) acc = Inr (acc @ (x # ms), d')"
      using p cm r by simp
    moreover have "map (\<lambda>m. (offer_id m, request_id m)) (x # ms) =
          map (\<lambda>p. (o_id (fst p), r_id (snd p)))
            (filter (\<lambda>p. rows_present d (fst p) (snd p)) (p # ps))"
      using pairs same True p res by (simp add: for_pair_def)
    moreover have "\<forall>m \<in> set (x # ms). non_terminal m \<and> m \<in> set (matches d')"
      using each res grow by auto
    moreover have "set (matches d) \<subseteq> set (matches d')"
      using res grow by blast
    ultimately show ?thesis by (intro exI [of _ "x # ms"] exI [of _ d'] conjI)
  qed
qed

lemma map_const_all:
  assumes "map f xs = map (\<lambda>y. c) ys"
  shows "\<forall>x \<in> set xs. f x = c"
proof
  fix x
  assume "x \<in> set xs"
  then have "f x \<in> set (map f xs)" by simp
  then have "f x \<in> set (map (\<lambda>y. c) ys)" by (simp only: assms)
  then show "f x = c" by auto
qed

lemma match_offer_each_total:
  assumes "\<forall>m \<in> set (matches d). offer_id m = o_id offer \<longrightarrow> non_terminal m"
  shows "\<exists>ms d'. match_offer_each now d offer reqs [] = Inr (ms, d')
      \<and> map request_id ms = map r_id (filter (rows_present d offer) reqs)
      \<and> (\<forall>m \<in> set ms. offer_id m = o_id offer \<and> non_terminal m \<and> m \<in> set (matches d'))"
proof -
  let ?ps = "map (Pair offer) reqs"
  have "\<forall>m \<in> set (matches d).
      (\<exists>p \<in> set ?ps. for_pair (o_id (fst p)) (r_id (snd p)) m) \<longrightarrow> non_terminal m"
    using assms by (auto simp: for_pair_def)
  from create_each_total [OF this, of now "[]"]
  obtain ms where "\<exists>d'. create_each now d ?ps [] = Inr ([] @ ms, d')
      \<and> map (\<lambda>m. (offer_id m, request_id m)) ms =
          map (\<lambda>p. (o_id (fst p), r_id (snd p)))
            (filter (\<lambda>p. rows_present d (fst p) (snd p)) ?ps)
      \<and> (\<forall>m \<in> set ms. non_terminal m \<and> m \<in> set (matches d'))
      \<and> set (matches d) \<subseteq> set (matches d')" ..
  then obtain d' where tot: "create_each now d ?ps [] = Inr ([] @ ms, d')
      \<and> map (\<lambda>m. (offer_id m, request_id m)) ms =
          map (\<lambda>p. (o_id (fst p), r_id (snd p)))
            (filter (\<lambda>p. rows_present d (fst p) (snd p)) ?ps)
      \<and> (\<forall>m \<in> set ms. non_terminal m \<and> m \<in> set (matches d'))
      \<and> set (matches d) \<subseteq> set (matches d')" ..
  note run = tot [THEN conjunct1]
  note pairs = tot [THEN conjunct2, THEN conjunct1]
  note each = tot [THEN conjunct2, THEN conjunct2, THEN conjunct1]
  have shape: "map (\<lambda>p. (o_id (fst p), r_id (snd p)))
      (filter (\<lambda>p. rows_present d (fst p) (snd p)) ?ps) =
      map (\<lambda>r. (o_id offer, r_id r)) (filter (rows_present d offer) reqs)"
    by (simp add: filter_map comp_def)
  have "map request_id ms = map snd (map (\<lambda>m. (offer_id m, request_id m)) ms)"
    by (simp add: comp_def)
  also have "\<dots> = map r_id (filter (rows_present d offer) reqs)"
    by (simp only: pairs shape) (simp add: comp_def)
  finally have ids: "map request_id ms = map r_id (filter (rows_present d offer) reqs)" .
  have "map offer_id ms = map fst (map (\<lambda>m. (offer_id m, request_id m)) ms)"
    by (simp add: comp_def)
  also have "\<dots> = map (\<lambda>r. o_id offer) (filter (rows_present d offer) reqs)"
    by (simp only: pairs shape) (simp add: comp_def)
  finally have "\<forall>m \<in> set ms. offer_id m = o_id offer"
    by (rule map_const_all)
  with each have all: "\<forall>m \<in> set ms. offer_id m = o_id offer \<and> non_terminal m
      \<and> m \<in> set (matches d')"
    by simp
  have "match_offer_each now d offer reqs [] = Inr (ms, d')"
    using run by (simp add: match_offer_each_eq)
  with ids all show ?thesis by (intro exI [of _ ms] exI [of _ d'] conjI)
qed

lemma match_request_each_total:
  assumes "\<forall>m \<in> set (matches d). request_id m = r_id request \<longrightarrow> non_terminal m"
  shows "\<exists>ms d'. match_request_each now d request offs [] = Inr (ms, d')
      \<and> map offer_id ms = map o_id (filter (\<lambda>off. rows_present d off request) offs)
      \<and> (\<forall>m \<in> set ms. request_id m = r_id request \<and> non_terminal m \<and> m \<in> set (matches d'))"
proof -
  let ?ps = "map (\<lambda>off. (off, request)) offs"
  have "\<forall>m \<in> set (matches d).
      (\<exists>p \<in> set ?ps. for_pair (o_id (fst p)) (r_id (snd p)) m) \<longrightarrow> non_terminal m"
    using assms by (auto simp: for_pair_def)
  from create_each_total [OF this, of now "[]"]
  obtain ms where "\<exists>d'. create_each now d ?ps [] = Inr ([] @ ms, d')
      \<and> map (\<lambda>m. (offer_id m, request_id m)) ms =
          map (\<lambda>p. (o_id (fst p), r_id (snd p)))
            (filter (\<lambda>p. rows_present d (fst p) (snd p)) ?ps)
      \<and> (\<forall>m \<in> set ms. non_terminal m \<and> m \<in> set (matches d'))
      \<and> set (matches d) \<subseteq> set (matches d')" ..
  then obtain d' where tot: "create_each now d ?ps [] = Inr ([] @ ms, d')
      \<and> map (\<lambda>m. (offer_id m, request_id m)) ms =
          map (\<lambda>p. (o_id (fst p), r_id (snd p)))
            (filter (\<lambda>p. rows_present d (fst p) (snd p)) ?ps)
      \<and> (\<forall>m \<in> set ms. non_terminal m \<and> m \<in> set (matches d'))
      \<and> set (matches d) \<subseteq> set (matches d')" ..
  note run = tot [THEN conjunct1]
  note pairs = tot [THEN conjunct2, THEN conjunct1]
  note each = tot [THEN conjunct2, THEN conjunct2, THEN conjunct1]
  have shape: "map (\<lambda>p. (o_id (fst p), r_id (snd p)))
      (filter (\<lambda>p. rows_present d (fst p) (snd p)) ?ps) =
      map (\<lambda>off. (o_id off, r_id request)) (filter (\<lambda>off. rows_present d off request) offs)"
    by (simp add: filter_map comp_def)
  have "map offer_id ms = map fst (map (\<lambda>m. (offer_id m, request_id m)) ms)"
    by (simp add: comp_def)
  also have "\<dots> = map o_id (filter (\<lambda>off. rows_present d off request) offs)"
    by (simp only: pairs shape) (simp add: comp_def)
  finally have ids: "map offer_id ms = map o_id (filter (\<lambda>off. rows_present d off request) offs)" .
  have "map request_id ms = map snd (map (\<lambda>m. (offer_id m, request_id m)) ms)"
    by (simp add: comp_def)
  also have "\<dots> = map (\<lambda>off. r_id request) (filter (\<lambda>off. rows_present d off request) offs)"
    by (simp only: pairs shape) (simp add: comp_def)
  finally have "\<forall>m \<in> set ms. request_id m = r_id request"
    by (rule map_const_all)
  with each have all: "\<forall>m \<in> set ms. request_id m = r_id request \<and> non_terminal m
      \<and> m \<in> set (matches d')"
    by simp
  have "match_request_each now d request offs [] = Inr (ms, d')"
    using run by (simp add: match_request_each_eq)
  with ids all show ?thesis by (intro exI [of _ ms] exI [of _ d'] conjI)
qed

text \<open>
  The handler of the loops catches \<open>HTTPException\<close> only. A flush that violates the
  unique constraint (a CONFIRMED or REJECTED match of the same pair exists) is not
  caught and ends the loop. It cannot happen for an offer or a request that no match of
  the store references otherwise than PENDING or ACCEPTED: then the loop returns.
\<close>

lemma terminal_match_aborts_matching:
  "match_offer_each 9 (matched_store REJECTED None) offer1 [request1] [] = Inl IntegrityError"
  by (simp add: create_match_def matched_store_def offer1_def request1_def get_offer_def
      get_request_def non_terminal_def)

lemma match_offer_total:
  assumes "\<forall>m \<in> set (matches d). offer_id m = o_id offer \<longrightarrow> non_terminal m"
  shows "\<exists>ms d'. match_offer now d offer = Inr (ms, d')
      \<and> (\<forall>m \<in> set ms. offer_id m = o_id offer \<and> non_terminal m \<and> m \<in> set (matches d'))"
  using match_offer_each_total [OF assms] unfolding match_offer_def by blast

lemma match_request_total:
  assumes "\<forall>m \<in> set (matches d). request_id m = r_id request \<longrightarrow> non_terminal m"
  shows "\<exists>ms d'. match_request now d request = Inr (ms, d')
      \<and> (\<forall>m \<in> set ms. request_id m = r_id request \<and> non_terminal m \<and> m \<in> set (matches d'))"
  using match_request_each_total [OF assms] unfolding match_request_def by blast

text \<open>
  So in a store where \<open>keys_ok\<close> holds, \<open>create_offer\<close> and \<open>create_request\<close> with
  naive times either return or refuse the window with a 400 before anything is written.
\<close>

lemma create_offer_no_abort:
  assumes "keys_ok d"
  shows "(\<exists>oid d'. create_offer now (Naive s) (Naive e) cu d = (Inr oid, d'))
       \<or> (\<exists>detail. create_offer now (Naive s) (Naive e) cu d =
            (Inl (HTTPException 400 detail), d))"
proof -
  define new_offer where "new_offer = \<lparr>o_id = next_offer_id d, o_user_id = u_id cu,
      o_start_at = s, o_end_at = e\<rparr>"
  define dA where "dA = d\<lparr>offers := offers d @ [new_offer]\<rparr>"
  have "\<forall>m \<in> set (matches dA). offer_id m = o_id new_offer \<longrightarrow> non_terminal m"
    using assms by (auto simp: keys_ok_def dA_def new_offer_def)
  from match_offer_total [OF this]
  obtain ms d' where "match_offer now dA new_offer = Inr (ms, d')" by blast
  then show ?thesis
    by (simp add: create_offer_def or_else_def Let_def new_offer_def [symmetric]
        dA_def [symmetric])
qed

lemma create_request_no_abort:
  assumes "keys_ok d"
  shows "(\<exists>rid d'. create_request now (Naive s) (Naive e) cu d = (Inr rid, d'))
       \<or> (\<exists>detail. create_request now (Naive s) (Naive e) cu d =
            (Inl (HTTPException 400 detail), d))"
proof -
  define new_request where "new_request = \<lparr>r_id = next_request_id d, r_user_id = u_id cu,
      r_start_at = s, r_end_at = e\<rparr>"
  define dA where "dA = d\<lparr>requests := requests d @ [new_request]\<rparr>"
  have "\<forall>m \<in> set (matches dA). request_id m = r_id new_request \<longrightarrow> non_terminal m"
    using assms by (auto simp: keys_ok_def dA_def new_request_def)
  from match_request_total [OF this]
  obtain ms d' where "match_request now dA new_request = Inr (ms, d')" by blast
  then show ?thesis
    by (simp add: create_request_def or_else_def Let_def new_request_def [symmetric]
        dA_def [symmetric])
qed

lemma create_match_returns_existing:
  assumes "rows_present d offer request"
    and "\<exists>x \<in> set (matches d). for_pair (o_id offer) (r_id request) x \<and> non_terminal x"
  shows "\<exists>m \<in> set (matches d). for_pair (o_id offer) (r_id request) m \<and> non_terminal m
           \<and> create_match now d offer request = Inr (m, d)"
proof -
  from assms(2) obtain x where x: "x \<in> set (matches d)"
    "for_pair (o_id offer) (r_id request) x \<and> non_terminal x" by blast
  from find_not_None [of x "matches d"
      "\<lambda>m. for_pair (o_id offer) (r_id request) m \<and> non_terminal m", OF x]
  obtain m where f: "find (\<lambda>m. for_pair (o_id offer) (r_id request) m \<and> non_terminal m)
      (matches d) = Some m" by blast
  from find_Some_set [OF f] create_match_existing [OF assms(1) f, of now]
  show ?thesis by blast
qed

section \<open>The matching engine after a delete\<close>

lemmas engine_simps = create_offer_def create_request_def match_offer_def match_request_def
  create_match_def get_offer_def get_request_def get_match_def send_match_email_def
  non_terminal_def next_offer_id_def next_request_id_def or_else_def
  delete_offer_def delete_request_def reject_match_def update_match_def
  empty_store_def open_store_def offer1_def request1_def stale_request_def stale_offer_def
  reissued_offer_def eve_request_def eve_offer_def
  ann_def bob_def eve_def Let_def

text \<open>The example stores, row by row.\<close>

lemma after_first_pair_rows:
  "after_first_pair =
     empty_store\<lparr>offers := [offer1], requests := [request1],
       matches := [\<lparr>m_id = 1, offer_id = 1, request_id = 1, status = PENDING,
                    pending_user_id = Some ''ann'', updated_at = 1\<rparr>],
       notifications := [\<lparr>n_user_id = ''ann'', n_message = Nouvelle_demande,
                          n_is_read = False\<rparr>],
       next_match_id := 2\<rparr>"
  by (simp add: after_first_pair_def engine_simps)

lemma orphan_store_rows:
  "orphan_store =
     empty_store\<lparr>
       matches := [\<lparr>m_id = 1, offer_id = 1, request_id = 1, status = PENDING,
                    pending_user_id = Some ''ann'', updated_at = 1\<rparr>],
       notifications := [\<lparr>n_user_id = ''ann'', n_message = Nouvelle_demande,
                          n_is_read = False\<rparr>],
       next_match_id := 2\<rparr>"
  by (simp add: orphan_store_def after_first_pair_rows engine_simps)

lemma offer_gone_store_rows:
  "offer_gone_store =
     empty_store\<lparr>requests := [request1, eve_request],
       matches := [\<lparr>m_id = 1, offer_id = 1, request_id = 1, status = REJECTED,
                    pending_user_id = None, updated_at = 2\<rparr>],
       notifications := [\<lparr>n_user_id = ''ann'', n_message = Nouvelle_demande,
                          n_is_read = False\<rparr>,
                         \<lparr>n_user_id = ''ann'', n_message = Demande_annulee,
                          n_is_read = False\<rparr>],
       next_match_id := 2\<rparr>"
  by (simp add: offer_gone_store_def after_first_pair_rows engine_simps)

lemma request_gone_store_rows:
  "request_gone_store =
     empty_store\<lparr>offers := [offer1, eve_offer],
       matches := [\<lparr>m_id = 1, offer_id = 1, request_id = 1, status = REJECTED,
                    pending_user_id = None, updated_at = 2\<rparr>],
       notifications := [\<lparr>n_user_id = ''ann'', n_message = Nouvelle_demande,
                          n_is_read = False\<rparr>,
                         \<lparr>n_user_id = ''ann'', n_message = Demande_annulee,
                          n_is_read = False\<rparr>],
       next_match_id := 2\<rparr>"
  by (simp add: request_gone_store_def after_first_pair_rows engine_simps)

text \<open>
  \<open>keys_ok\<close> holds after the first pair, and is lost when the offer is deleted: match 1
  then references the key that the table of offers hands out next.
\<close>

lemma delete_breaks_keys_ok:
  "keys_ok after_first_pair \<and> \<not> keys_ok (snd (delete_offer 1 ann after_first_pair))
   \<and> next_offer_id (snd (delete_offer 1 ann after_first_pair)) = 1"
  by (simp add: keys_ok_def after_first_pair_rows engine_simps)

text \<open>
  A slot with a UTC offset never becomes an offer: the comparison with \<open>utcnow()\<close>
  raises.
\<close>

lemma aware_slot_raises:
  "create_offer 0 (Aware 10 0) (Aware 40 0) ann empty_store = (Inl TypeError, empty_store)"
  by (simp add: create_offer_def or_else_def)

text \<open>
  Claim C1, which the code does not meet once a row has been deleted. In
  \<open>orphan_store\<close> the offer and the request of match 1 are gone and the match is still
  there, PENDING and awaiting ann. Eve now creates an offer over \<open>[10, 40]\<close> and bob a
  request over \<open>[20, 30]\<close>, in this order or in the other; both creations return, and
  each row receives the key 1 again. \<open>_create_match\<close> finds match 1 under the pair
  \<open>(1, 1)\<close> and returns it instead of inserting a match, so \<open>_match_request\<close> and
  \<open>_match_offer\<close> return it and leave the store as it is: the only match of the new
  pair is PENDING with \<open>pending_user_id\<close> ann, not eve, the owner of the offer. Eve, who
  is to respond first, is refused by \<open>accept_match\<close>.
\<close>

theorem reissued_key_takes_stale_match:
  "create_offer 4 (Naive 10) (Naive 40) eve orphan_store =
     (Inr 1, orphan_store\<lparr>offers := [reissued_offer]\<rparr>)
   \<and> create_request 5 (Naive 20) (Naive 30) bob (orphan_store\<lparr>offers := [reissued_offer]\<rparr>) =
       (Inr 1, reissued_store)
   \<and> create_request 4 (Naive 20) (Naive 30) bob orphan_store =
       (Inr 1, orphan_store\<lparr>requests := [request1]\<rparr>)
   \<and> create_offer 5 (Naive 10) (Naive 40) eve (orphan_store\<lparr>requests := [request1]\<rparr>) =
       (Inr 1, reissued_store)
   \<and> get_offer reissued_store 1 = Some reissued_offer
   \<and> o_user_id reissued_offer = u_id eve
   \<and> get_request reissued_store 1 = Some request1
   \<and> create_match 5 reissued_store reissued_offer request1 = Inr (stale_match, reissued_store)
   \<and> match_request 5 reissued_store request1 = Inr ([stale_match], reissued_store)
   \<and> match_offer 5 reissued_store reissued_offer = Inr ([stale_match], reissued_store)
   \<and> filter (for_pair 1 1) (matches reissued_store) = [stale_match]
   \<and> status stale_match = PENDING
   \<and> pending_user_id stale_match = Some (u_id ann)
   \<and> accept_match 6 1 eve reissued_store =
       (Inl (HTTPException 403 ''Not authorized to respond to this match''), reissued_store)"
proof -
  note rows = reissued_store_def orphan_store_rows stale_match_def
  have a: "create_offer 4 (Naive 10) (Naive 40) eve orphan_store =
     (Inr 1, orphan_store\<lparr>offers := [reissued_offer]\<rparr>)"
    by (simp add: rows engine_simps)
  have b: "create_request 5 (Naive 20) (Naive 30) bob
      (orphan_store\<lparr>offers := [reissued_offer]\<rparr>) = (Inr 1, reissued_store)"
    by (simp add: rows engine_simps)
  have c: "create_request 4 (Naive 20) (Naive 30) bob orphan_store =
       (Inr 1, orphan_store\<lparr>requests := [request1]\<rparr>)"
    by (simp add: rows engine_simps)
  have d: "create_offer 5 (Naive 10) (Naive 40) eve (orphan_store\<lparr>requests := [request1]\<rparr>) =
       (Inr 1, reissued_store)"
    by (simp add: rows engine_simps)
  have e: "get_offer reissued_store 1 = Some reissued_offer"
    by (simp add: rows engine_simps)
  have e': "o_user_id reissued_offer = u_id eve"
    by (simp add: reissued_offer_def eve_def)
  have f: "get_request reissued_store 1 = Some request1"
    by (simp add: rows engine_simps)
  have g: "create_match 5 reissued_store reissued_offer request1 =
      Inr (stale_match, reissued_store)"
    by (simp add: rows engine_simps)
  have g1: "match_request 5 reissued_store request1 = Inr ([stale_match], reissued_store)"
    by (simp add: rows engine_simps)
  have g2: "match_offer 5 reissued_store reissued_offer = Inr ([stale_match], reissued_store)"
    by (simp add: rows engine_simps)
  have h: "filter (for_pair 1 1) (matches reissued_store) = [stale_match]"
    by (simp add: rows for_pair_def engine_simps)
  have i: "status stale_match = PENDING" "pending_user_id stale_match = Some (u_id ann)"
    by (simp_all add: stale_match_def ann_def)
  have j: "accept_match 6 1 eve reissued_store =
       (Inl (HTTPException 403 ''Not authorized to respond to this match''), reissued_store)"
    by (simp add: accept_match_def rows engine_simps)
  from a b c d e e' f g g1 g2 h i j show ?thesis
    by - (intro conjI; assumption)
qed

text \<open>
  Claim C5, which the code does not meet: the handler of the two loops is
  \<open>except HTTPException\<close>, and the \<open>IntegrityError\<close> that the flush of
  \<open>_create_match\<close> raises on the unique constraint is not an \<open>HTTPException\<close>. In
  \<open>offer_gone_store\<close> the REJECTED match 1 still references offer 1, which is deleted,
  and the requests of bob and of eve are both compatible with the offer ann creates now.
  The offer receives the key 1 again; the pairing with the request of bob violates the
  constraint, the exception leaves \<open>_match_offer\<close> and \<open>create_offer\<close> with the offer
  committed, and the request of eve, whose pairing on its own returns a new match, is left
  without one. Likewise for \<open>_match_request\<close> in \<open>request_gone_store\<close>, where bob
  requests again and the offer of eve is left without a match.
\<close>

theorem unique_violation_aborts_matching:
  "match_offer 6 (offer_gone_store\<lparr>offers := [offer1]\<rparr>) offer1 = Inl IntegrityError
   \<and> create_offer 6 (Naive 10) (Naive 40) ann offer_gone_store =
       (Inl IntegrityError, offer_gone_store\<lparr>offers := [offer1]\<rparr>)
   \<and> filter (for_pair 1 2) (matches (offer_gone_store\<lparr>offers := [offer1]\<rparr>)) = []
   \<and> match_offer_each 6 (offer_gone_store\<lparr>offers := [offer1]\<rparr>) offer1 [eve_request] [] =
       Inr ([new_match 6 offer_gone_store offer1 eve_request],
            add_match (new_match 6 offer_gone_store offer1 eve_request) ''ann''
              (offer_gone_store\<lparr>offers := [offer1]\<rparr>))
   \<and> match_request 6 (request_gone_store\<lparr>requests := [request1]\<rparr>) request1 =
       Inl IntegrityError
   \<and> create_request 6 (Naive 20) (Naive 30) bob request_gone_store =
       (Inl IntegrityError, request_gone_store\<lparr>requests := [request1]\<rparr>)
   \<and> filter (for_pair 2 1) (matches (request_gone_store\<lparr>requests := [request1]\<rparr>)) = []
   \<and> match_request_each 6 (request_gone_store\<lparr>requests := [request1]\<rparr>) request1
         [eve_offer] [] =
       Inr ([new_match 6 request_gone_store eve_offer request1],
            add_match (new_match 6 request_gone_store eve_offer request1) ''eve''
              (request_gone_store\<lparr>requests := [request1]\<rparr>))"
proof -
  have a: "match_offer 6 (offer_gone_store\<lparr>offers := [offer1]\<rparr>) offer1 = Inl IntegrityError"
    by (simp add: offer_gone_store_rows engine_simps)
  have b: "create_offer 6 (Naive 10) (Naive 40) ann offer_gone_store =
       (Inl IntegrityError, offer_gone_store\<lparr>offers := [offer1]\<rparr>)"
    by (simp add: offer_gone_store_rows engine_simps)
  have c: "filter (for_pair 1 2) (matches (offer_gone_store\<lparr>offers := [offer1]\<rparr>)) = []"
    by (simp add: offer_gone_store_rows for_pair_def engine_simps)
  have d: "match_offer_each 6 (offer_gone_store\<lparr>offers := [offer1]\<rparr>) offer1 [eve_request] [] =
       Inr ([new_match 6 offer_gone_store offer1 eve_request],
            add_match (new_match 6 offer_gone_store offer1 eve_request) ''ann''
              (offer_gone_store\<lparr>offers := [offer1]\<rparr>))"
    by (simp add: offer_gone_store_rows new_match_def add_match_def engine_simps)
  have e: "match_request 6 (request_gone_store\<lparr>requests := [request1]\<rparr>) request1 =
       Inl IntegrityError"
    by (simp add: request_gone_store_rows engine_simps)
  have f: "create_request 6 (Naive 20) (Naive 30) bob request_gone_store =
       (Inl IntegrityError, request_gone_store\<lparr>requests := [request1]\<rparr>)"
    by (simp add: request_gone_store_rows engine_simps)
  have g: "filter (for_pair 2 1) (matches (request_gone_store\<lparr>requests := [request1]\<rparr>)) = []"
    by (simp add: request_gone_store_rows for_pair_def engine_simps)
  have h: "match_request_each 6 (request_gone_store\<lparr>requests := [request1]\<rparr>) request1
         [eve_offer] [] =
       Inr ([new_match 6 request_gone_store eve_offer request1],
            add_match (new_match 6 request_gone_store eve_offer request1) ''eve''
              (request_gone_store\<lparr>requests := [request1]\<rparr>))"
    by (simp add: request_gone_store_rows new_match_def add_match_def engine_simps)
  from a b c d e f g h show ?thesis
    by - (intro conjI; assumption)
qed

section \<open>Properties of the messages\<close>

lemma get_user_id: "get_user d uid = Some u \<Longrightarrow> u_id u = uid"
  unfolding get_user_def by (rule find_key_Some)

lemma send_message_Inr:
  assumes "send_message broken now ts recipient body cu d w = (Inr resp, d', w')"
  shows "resp_message resp = \<lparr>msg_id = next_message_id d, sender_id = u_id cu,
           recipient_id = recipient, content = body, is_read = False, created_at = now\<rparr>"
    and "d' = d\<lparr>messages := messages d @ [resp_message resp],
              next_message_id := Suc (next_message_id d)\<rparr>"
    and "w' = send_personal_message broken (new_message_event ts (resp_message resp) cu)
              recipient w"
  using assms
  by (auto simp: send_message_def Let_def dest: get_user_id split: option.splits if_splits)

lemma send_message_unknown_recipient:
  "get_user d recipient = None \<Longrightarrow>
   send_message broken now ts recipient body cu d w =
     (Inl (HTTPException 404 ''Recipient not found''), d, w)"
  by (simp add: send_message_def)

lemma send_message_to_self:
  assumes self: "recipient = u_id cu"
  shows "\<exists>e. send_message broken now ts recipient body cu d w = (Inl e, d, w)"
proof (cases "get_user d recipient")
  case None
  then show ?thesis by (simp add: send_message_def)
next
  case (Some ru)
  then have "u_id ru = u_id cu" using self get_user_id [of d recipient ru] by simp
  with Some show ?thesis by (simp add: send_message_def)
qed

lemma send_message_succeeds:
  assumes a: "get_user d recipient \<noteq> None \<and> recipient \<noteq> u_id cu"
  shows "\<exists>resp d' w'. send_message broken now ts recipient body cu d w = (Inr resp, d', w')"
proof -
  from a obtain ru where ru: "get_user d recipient = Some ru" by blast
  then have "u_id ru \<noteq> u_id cu" using a get_user_id [of d recipient ru] by simp
  with ru show ?thesis
    by (simp add: send_message_def Let_def)
qed

lemma new_message_event_type:
  "message_get (new_message_event ts m cu) ''type'' = Inr (Some (JStr ''new_message''))"
  by (simp add: message_get_def new_message_event_def)

lemma send_message_effect:
  assumes ok: "send_message broken now ts recipient body cu d w = (Inr resp, d', w')"
  shows "messages d' = messages d @ [resp_message resp]"
    and "is_read (resp_message resp) = False"
    and "sender_id (resp_message resp) = u_id cu"
    and "recipient_id (resp_message resp) = recipient"
    and "content (resp_message resp) = body"
    and "outbox w' = outbox w @
           map (\<lambda>ws. (ws, new_message_event ts (resp_message resp) cu))
             (filter (\<lambda>ws. \<not> broken ws) (connections_of (active_connections w) recipient))"
proof -
  note m = send_message_Inr(1) [OF ok]
  show "messages d' = messages d @ [resp_message resp]"
    using send_message_Inr(2) [OF ok] by simp
  show "is_read (resp_message resp) = False" using m by simp
  show "sender_id (resp_message resp) = u_id cu" using m by simp
  show "recipient_id (resp_message resp) = recipient" using m by simp
  show "content (resp_message resp) = body" using m by simp
  show "outbox w' = outbox w @
           map (\<lambda>ws. (ws, new_message_event ts (resp_message resp) cu))
             (filter (\<lambda>ws. \<not> broken ws) (connections_of (active_connections w) recipient))"
    using send_message_Inr(3) [OF ok] by (simp add: send_personal_message_outbox)
qed

text \<open>
  Claim C7. \<open>send_message\<close> fails when the recipient does not exist and when the
  recipient is the sender, leaving the store and the connections as they were; in every
  other case it succeeds. When it succeeds, the \<open>messages\<close> table has grown by exactly
  one row, unread, from the sender to the recipient, and one \<open>new_message\<close> event has
  been written to each connection registered for the recipient whose transport takes it
  (none if the recipient has no connection).
\<close>

theorem send_message_outcomes:
  "(get_user d recipient = None \<longrightarrow>
      send_message broken now ts recipient body cu d w =
        (Inl (HTTPException 404 ''Recipient not found''), d, w))
   \<and> (recipient = u_id cu \<longrightarrow>
      (\<exists>e. send_message broken now ts recipient body cu d w = (Inl e, d, w)))
   \<and> (get_user d recipient \<noteq> None \<and> recipient \<noteq> u_id cu \<longrightarrow>
      (\<exists>resp d' w'. send_message broken now ts recipient body cu d w = (Inr resp, d', w')))
   \<and> (send_message broken now ts recipient body cu d w = (Inr resp, d', w') \<longrightarrow>
      messages d' = messages d @ [resp_message resp]
      \<and> is_read (resp_message resp) = False
      \<and> sender_id (resp_message resp) = u_id cu
      \<and> recipient_id (resp_message resp) = recipient
      \<and> content (resp_message resp) = body
      \<and> message_get (new_message_event ts (resp_message resp) cu) ''type''
           = Inr (Some (JStr ''new_message''))
      \<and> outbox w' = outbox w @
           map (\<lambda>ws. (ws, new_message_event ts (resp_message resp) cu))
             (filter (\<lambda>ws. \<not> broken ws) (connections_of (active_connections w) recipient)))"
proof -
  have a: "get_user d recipient = None \<longrightarrow>
      send_message broken now ts recipient body cu d w =
        (Inl (HTTPException 404 ''Recipient not found''), d, w)"
    by (rule impI) (rule send_message_unknown_recipient)
  have b: "recipient = u_id cu \<longrightarrow>
      (\<exists>e. send_message broken now ts recipient body cu d w = (Inl e, d, w))"
    by (rule impI) (rule send_message_to_self)
  have c: "get_user d recipient \<noteq> None \<and> recipient \<noteq> u_id cu \<longrightarrow>
      (\<exists>resp d' w'. send_message broken now ts recipient body cu d w = (Inr resp, d', w'))"
    by (rule impI) (rule send_message_succeeds)
  have e: "send_message broken now ts recipient body cu d w = (Inr resp, d', w') \<longrightarrow>
      messages d' = messages d @ [resp_message resp]
      \<and> is_read (resp_message resp) = False
      \<and> sender_id (resp_message resp) = u_id cu
      \<and> recipient_id (resp_message resp) = recipient
      \<and> content (resp_message resp) = body
      \<and> message_get (new_message_event ts (resp_message resp) cu) ''type''
           = Inr (Some (JStr ''new_message''))
      \<and> outbox w' = outbox w @
           map (\<lambda>ws. (ws, new_message_event ts (resp_message resp) cu))
             (filter (\<lambda>ws. \<not> broken ws) (connections_of (active_connections w) recipient))"
    using send_message_effect [of broken now ts recipient body cu d w resp d' w']
      new_message_event_type [of ts "resp_message resp" cu]
    by (intro impI conjI) assumption+
  from a b c e show ?thesis by (intro conjI)
qed

lemma mark_leaves_no_unread:
  "filter (unread_from other me)
     (map (\<lambda>m. if unread_from other me m then m\<lparr>is_read := True\<rparr> else m) ms) = []"
  by (induction ms) (simp_all add: unread_from_def)

lemma filter_unread_after_mark:
  "filter (unread_from other me) (messages (mark_thread_read other me d)) = []"
  by (simp add: mark_thread_read_def mark_leaves_no_unread)

lemma conversation_with_fields:
  "conversation_with d cu x = Some c \<Longrightarrow>
   other_user_id c = x
   \<and> unread_count c = length (filter (unread_from x (u_id cu)) (messages d))"
  by (auto simp: conversation_with_def split: option.splits list.splits)

lemma set_map_filter_iff:
  "y \<in> set (List.map_filter f xs) \<longleftrightarrow> (\<exists>x \<in> set xs. f x = Some y)"
  by (force simp: map_filter_def)

lemma list_conversations_unread:
  assumes "c \<in> set (list_conversations d cu)"
  shows "unread_count c =
     length (filter (unread_from (other_user_id c) (u_id cu)) (messages d))"
proof -
  from assms obtain x where "conversation_with d cu x = Some c"
    by (auto simp: list_conversations_def Let_def set_map_filter_iff)
  then show ?thesis using conversation_with_fields by blast
qed

text \<open>
  Claim C8. For an existing counterpart (and a page the store can evaluate),
  \<open>get_conversation_thread\<close> returns the page and leaves the store in which every
  message from the counterpart to the caller is read, on the page or not; every entry
  that \<open>list_conversations\<close> then lists for that counterpart has \<open>unread_count = 0\<close>.
\<close>

theorem thread_marks_read:
  assumes "get_user d other \<noteq> None"
    and "paginate ((page - 1) * page_size) page_size
           (newest_first (filter (between (u_id cu) other) (messages d))) = Inr msgs"
  shows "\<exists>resps d'. get_conversation_thread paginate other cu page page_size d = (Inr resps, d')
     \<and> map resp_message resps = msgs
     \<and> d' = mark_thread_read other (u_id cu) d
     \<and> (\<forall>m \<in> set (messages d').
           sender_id m = other \<and> recipient_id m = u_id cu \<longrightarrow> is_read m)
     \<and> (\<forall>c \<in> set (list_conversations d' cu). other_user_id c = other \<longrightarrow> unread_count c = 0)"
proof -
  let ?d' = "mark_thread_read other (u_id cu) d"
  from assms obtain resps where
    r: "get_conversation_thread paginate other cu page page_size d = (Inr resps, ?d')"
    and rm: "map resp_message resps = msgs"
    by (auto simp: get_conversation_thread_def comp_def)
  have read: "\<forall>m \<in> set (messages ?d').
      sender_id m = other \<and> recipient_id m = u_id cu \<longrightarrow> is_read m"
  proof (intro ballI impI)
    fix m
    assume m: "m \<in> set (messages ?d')"
      and sr: "sender_id m = other \<and> recipient_id m = u_id cu"
    have "\<forall>x \<in> set (messages ?d'). \<not> unread_from other (u_id cu) x"
      using filter_unread_after_mark [of other "u_id cu" d] by (simp only: filter_empty_conv)
    with m have "\<not> unread_from other (u_id cu) m" by (rule bspec [rotated])
    with sr show "is_read m" by (simp add: unread_from_def)
  qed
  have zero: "\<forall>c \<in> set (list_conversations ?d' cu). other_user_id c = other \<longrightarrow> unread_count c = 0"
    using list_conversations_unread [of _ ?d' cu] filter_unread_after_mark [of other "u_id cu" d]
    by auto
  from r rm read zero show ?thesis by blast
qed

lemmas chat_simps = chat_store_def empty_store_def ann_def bob_def eve_def get_user_def
  between_def unread_from_def newest_first_def mark_thread_read_def

theorem thread_marks_read_witness:
  "(case fst (get_conversation_thread sqlite_paginate ''bob'' ann 1 1 chat_store) of
      Inr resps \<Rightarrow> map (\<lambda>r. msg_id (resp_message r)) resps | Inl e \<Rightarrow> []) = [3]
   \<and> map is_read (messages (snd (get_conversation_thread sqlite_paginate ''bob'' ann 1 1
         chat_store))) = [True, False, True, False]
   \<and> map (\<lambda>c. (other_user_id c, unread_count c))
        (list_conversations (snd (get_conversation_thread sqlite_paginate ''bob'' ann 1 1
           chat_store)) ann) = [(''eve'', 1), (''bob'', 0)]
   \<and> map (\<lambda>c. (other_user_id c, unread_count c)) (list_conversations chat_store ann)
        = [(''eve'', 1), (''bob'', 2)]"
proof -
  have u: "get_user chat_store ''bob'' \<noteq> None"
    by (simp add: chat_simps)
  have p: "sqlite_paginate ((1 - 1) * 1) 1
      (newest_first (filter (between (u_id ann) ''bob'') (messages chat_store))) =
      Inr [\<lparr>msg_id = 3, sender_id = ''bob'', recipient_id = ''ann'', content = ''again'',
            is_read = False, created_at = 3\<rparr>]"
    by (simp add: chat_simps sqlite_paginate_def)
  have l: "map (\<lambda>c. (other_user_id c, unread_count c))
        (list_conversations (mark_thread_read ''bob'' ''ann'' chat_store) ann)
        = [(''eve'', 1), (''bob'', 0)]"
    by (simp add: chat_simps list_conversations_def conversation_with_def map_filter_simps)
  have l0: "map (\<lambda>c. (other_user_id c, unread_count c)) (list_conversations chat_store ann)
        = [(''eve'', 1), (''bob'', 2)]"
    by (simp add: chat_simps list_conversations_def conversation_with_def map_filter_simps)
  have m: "map is_read (messages (mark_thread_read ''bob'' ''ann'' chat_store))
        = [True, False, True, False]"
    by (simp add: chat_simps)
  from thread_marks_read [where paginate=sqlite_paginate and page=1 and page_size=1
      and cu=ann and d=chat_store and other="''bob''", OF u p] l l0 m show ?thesis
    by (auto simp: ann_def)
qed

theorem send_message_outcomes_witness:
  "send_message (\<lambda>ws. ws = 2) 9 0 ''zed'' ''hello'' ann empty_store
       \<lparr>active_connections = [''bob'' \<mapsto> [1, 2, 3]], outbox = []\<rparr> =
     (Inl (HTTPException 404 ''Recipient not found''), empty_store,
      \<lparr>active_connections = [''bob'' \<mapsto> [1, 2, 3]], outbox = []\<rparr>)
   \<and> send_message (\<lambda>ws. ws = 2) 9 0 ''ann'' ''hello'' ann empty_store
       \<lparr>active_connections = [''bob'' \<mapsto> [1, 2, 3]], outbox = []\<rparr> =
     (Inl (HTTPException 400 ''Cannot send message to yourself''), empty_store,
      \<lparr>active_connections = [''bob'' \<mapsto> [1, 2, 3]], outbox = []\<rparr>)
   \<and> messages (fst (snd (send_message (\<lambda>ws. ws = 2) 9 0 ''bob'' ''hello'' ann empty_store
       \<lparr>active_connections = [''bob'' \<mapsto> [1, 2, 3]], outbox = []\<rparr>))) =
     [\<lparr>msg_id = 1, sender_id = ''ann'', recipient_id = ''bob'', content = ''hello'',
       is_read = False, created_at = 9\<rparr>]
   \<and> map fst (outbox (snd (snd (send_message (\<lambda>ws. ws = 2) 9 0 ''bob'' ''hello'' ann
       empty_store \<lparr>active_connections = [''bob'' \<mapsto> [1, 2, 3]], outbox = []\<rparr>)))) = [1, 3]
   \<and> outbox (snd (snd (send_message (\<lambda>ws. ws = 2) 9 0 ''bob'' ''hello'' ann
       empty_store \<lparr>active_connections = Map.empty, outbox = []\<rparr>))) = []"
proof -
  let ?w = "\<lparr>active_connections = [''bob'' \<mapsto> [1::nat, 2, 3]], outbox = []\<rparr>"
  let ?v = "\<lparr>active_connections = Map.empty, outbox = []\<rparr> :: ws_world"
  let ?m = "\<lparr>msg_id = 1, sender_id = ''ann'', recipient_id = ''bob'', content = ''hello'',
       is_read = False, created_at = 9\<rparr>"
  let ?r = "\<lparr>resp_message = ?m, sender_email = Some ''ann@example.com'',
       recipient_email = Some ''bob@example.com''\<rparr>"
  let ?d' = "empty_store\<lparr>messages := [?m], next_message_id := 2\<rparr>"
  have z: "get_user empty_store ''zed'' = None"
    by (simp add: get_user_def empty_store_def ann_def bob_def eve_def)
  have s: "''ann'' = u_id ann"
    by (simp add: ann_def)
  have ok: "send_message (\<lambda>ws. ws = 2) 9 0 ''bob'' ''hello'' ann empty_store ?w =
     (Inr ?r, ?d', send_personal_message (\<lambda>ws. ws = 2) (new_message_event 0 ?m ann) ''bob'' ?w)"
    by (simp add: send_message_def get_user_def empty_store_def ann_def bob_def eve_def Let_def)
  have okv: "send_message (\<lambda>ws. ws = 2) 9 0 ''bob'' ''hello'' ann empty_store ?v =
     (Inr ?r, ?d', send_personal_message (\<lambda>ws. ws = 2) (new_message_event 0 ?m ann) ''bob'' ?v)"
    by (simp add: send_message_def get_user_def empty_store_def ann_def bob_def eve_def Let_def)
  have self: "send_message (\<lambda>ws. ws = 2) 9 0 ''ann'' ''hello'' ann empty_store ?w =
     (Inl (HTTPException 400 ''Cannot send message to yourself''), empty_store, ?w)"
    by (simp add: send_message_def get_user_def empty_store_def ann_def bob_def eve_def Let_def)
  note a = send_message_outcomes [where d=empty_store and recipient="''zed''" and cu=ann
      and broken="\<lambda>ws. ws = 2" and now=9 and ts=0 and body="''hello''" and w="?w"]
  note b = send_message_outcomes [where d=empty_store and recipient="''ann''" and cu=ann
      and broken="\<lambda>ws. ws = 2" and now=9 and ts=0 and body="''hello''" and w="?w"]
  note c = send_message_outcomes [where d=empty_store and recipient="''bob''" and cu=ann
      and broken="\<lambda>ws. ws = 2" and now=9 and ts=0 and body="''hello''" and w="?w"
      and resp="?r" and d'="?d'"
      and w'="send_personal_message (\<lambda>ws. ws = 2) (new_message_event 0 ?m ann) ''bob'' ?w"]
  note e = send_message_outcomes [where d=empty_store and recipient="''bob''" and cu=ann
      and broken="\<lambda>ws. ws = 2" and now=9 and ts=0 and body="''hello''" and w="?v"
      and resp="?r" and d'="?d'"
      and w'="send_personal_message (\<lambda>ws. ws = 2) (new_message_event 0 ?m ann) ''bob'' ?v"]
  from a z have c1: "send_message (\<lambda>ws. ws = 2) 9 0 ''zed'' ''hello'' ann empty_store ?w =
     (Inl (HTTPException 404 ''Recipient not found''), empty_store, ?w)"
    by blast
  from c ok have c3: "outbox (send_personal_message (\<lambda>ws. ws = 2)
        (new_message_event 0 ?m ann) ''bob'' ?w) =
      outbox ?w @ map (\<lambda>ws. (ws, new_message_event 0 (resp_message ?r) ann))
             (filter (\<lambda>ws. \<not> ws = 2) (connections_of (active_connections ?w) ''bob''))"
    by blast
  from e okv have c4: "outbox (send_personal_message (\<lambda>ws. ws = 2)
        (new_message_event 0 ?m ann) ''bob'' ?v) =
      outbox ?v @ map (\<lambda>ws. (ws, new_message_event 0 (resp_message ?r) ann))
             (filter (\<lambda>ws. \<not> ws = 2) (connections_of (active_connections ?v) ''bob''))"
    by blast
  from b s have c2: "\<exists>e. send_message (\<lambda>ws. ws = 2) 9 0 ''ann'' ''hello'' ann empty_store ?w =
     (Inl e, empty_store, ?w)"
    by blast
  show ?thesis
    using c1 c2 self ok okv c3 c4
    by (simp add: connections_of_def empty_store_def ann_def)
qed

end
